theory Spec2Isabelle
  imports Main "HOL-Library.Word"
begin

unbundle bit_operations_syntax

section \<open>Machine types\<close>

type_synonym u8 = "8 word"
type_synonym u16 = "16 word"
type_synonym u32 = "32 word"
type_synonym u64 = "64 word"

section \<open>VirtIO scatter/gather message (virtio.h)\<close>

datatype virtio_status =
  VIRTIO_INCOMPLETE | VIRTIO_OK | VIRTIO_ERR_INDIRECT | VIRTIO_ERR_NODMI
  | VIRTIO_ERR_CHAIN | VIRTIO_ERR_DESC

record vq_buffer =
  addr :: u64
  size :: u32

text \<open>
  \<^verbatim>\<open>struct vq_message\<close>. The field \<^verbatim>\<open>in\<close> is a keyword of the logic and is
  called \<open>in_bufs\<close>; \<^verbatim>\<open>out\<close> is called \<open>out_bufs\<close> to match. The \<^verbatim>\<open>dmi\<close>
  callback plays no part in \<^verbatim>\<open>append\<close> and is left out.
\<close>

record vq_message =
  status :: virtio_status
  index :: u32
  length_in :: u32
  length_out :: u32
  in_bufs :: "vq_buffer list"
  out_bufs :: "vq_buffer list"

text \<open>
  \<^verbatim>\<open>vq_message::append\<close>, virtio.h lines 141-149: \<^verbatim>\<open>push_back\<close> is \<open>@\<close> with a
  singleton, \<^verbatim>\<open>+=\<close> on \<^verbatim>\<open>u32\<close> wraps.
\<close>

definition append :: "vq_message \<Rightarrow> u64 \<Rightarrow> u32 \<Rightarrow> bool \<Rightarrow> vq_message" where
  "append msg a sz iswr =
     (if iswr
      then msg\<lparr>out_bufs := out_bufs msg @ [\<lparr>addr = a, size = sz\<rparr>],
                length_out := length_out msg + sz\<rparr>
      else msg\<lparr>in_bufs := in_bufs msg @ [\<lparr>addr = a, size = sz\<rparr>],
                length_in := length_in msg + sz\<rparr>)"

definition empty_message :: vq_message where
  "empty_message =
     \<lparr>status = VIRTIO_INCOMPLETE, index = 0, length_in = 0, length_out = 0,
      in_bufs = [], out_bufs = []\<rparr>"

section \<open>Packed-ring event suppression (virtio.h)\<close>

record vq_event =
  off_wrap :: u16
  flags :: u16

text \<open>
  \<^verbatim>\<open>VCML_ERROR\<close> does not return to its caller: it raises an error report. The
  model makes it a value.
\<close>

datatype vcml_report = Report string

definition F_EVENT_ENABLE :: u16 where "F_EVENT_ENABLE = 0"
definition F_EVENT_DISABLE :: u16 where "F_EVENT_DISABLE = 1"
definition F_EVENT_DESC :: u16 where "F_EVENT_DESC = 2"

text \<open>
  \<^verbatim>\<open>packed_virtqueue::vq_event::should_notify\<close>, virtio.h lines 387-396. The
  comparison \<^verbatim>\<open>index == off_wrap\<close> promotes the \<^verbatim>\<open>u16\<close> to 32 bits.
\<close>

definition should_notify :: "vq_event \<Rightarrow> u32 \<Rightarrow> vcml_report + bool" where
  "should_notify ev idx =
     (if flags ev = F_EVENT_ENABLE then Inr True
      else if flags ev = F_EVENT_DISABLE then Inr False
      else if flags ev = F_EVENT_DESC then Inr (idx = ucast (off_wrap ev))
      else Inl (Report ''illegal virtio event flags''))"

section \<open>GIC-400 data model (gic400.cpp)\<close>

text \<open>
  Modelled from the spec: the constants of the enum in gic400.h, which is not among the
  sources. Section 3.2 and the glossary give SGIs as ids 0-15, PPIs as 16-31, SPIs from
  32, \<^verbatim>\<open>IDLE_PRIO = 0x100\<close> and 8-bit CPU masks (so 8 CPUs and \<^verbatim>\<open>ALL_CPU = 0xff\<close>).
  The spec names the \<^verbatim>\<open>SPURIOUS\<close> sentinel and the size of the interrupt table
  without a value; they are the GIC architecture's 1023 and 1020.
\<close>

definition NCPU :: nat where "NCPU = 8"
definition NSGI :: nat where "NSGI = 16"
definition NPPI :: nat where "NPPI = 16"
definition NPRIV :: nat where "NPRIV = NSGI + NPPI"
definition NIRQ :: nat where "NIRQ = 1020"
definition SPURIOUS_IRQ :: nat where "SPURIOUS_IRQ = 1023"
definition IDLE_PRIO :: nat where "IDLE_PRIO = 0x100"
definition ALL_CPU :: u32 where "ALL_CPU = 0xff"

datatype handling_model = N_N | N_1
datatype trigger_mode = LEVEL | EDGE

text \<open>
  Modelled from the spec: \<^verbatim>\<open>struct irq_state\<close> of gic400.h (section 3.2: bitmasks
  \<^verbatim>\<open>enabled\<close>, \<^verbatim>\<open>pending\<close>, \<^verbatim>\<open>active\<close>, \<^verbatim>\<open>level\<close>, \<^verbatim>\<open>signaled\<close>, each indexed by
  CPU, a model and a trigger). The constructor in gic400.cpp lines 20-29 gives the
  initial values.
\<close>

record irq_state =
  enabled :: u8
  pending :: u8
  active :: u8
  level :: u8
  signaled :: u8
  model :: handling_model
  trigger :: trigger_mode

definition irq_state_init :: irq_state where
  "irq_state_init =
     \<lparr>enabled = 0, pending = 0, active = 0, level = 0, signaled = 0,
      model = N_N, trigger = EDGE\<rparr>"

text \<open>
  Modelled from the spec: \<^verbatim>\<open>struct list_entry\<close> of gic400.h (section 3.2: each list
  register carries pending, active, hw, prio, virtual_id, physical_id, cpu_id). The
  fields carry the prefix \<open>le_\<close> to keep them apart from those of \<open>irq_state\<close>.
\<close>

record list_entry =
  le_pending :: bool
  le_active :: bool
  le_hw :: bool
  le_prio :: u8
  le_virtual_id :: u16
  le_physical_id :: u16
  le_cpu_id :: u8

definition list_entry_init :: list_entry where
  "list_entry_init =
     \<lparr>le_pending = False, le_active = False, le_hw = False, le_prio = 0,
      le_virtual_id = 0, le_physical_id = 0, le_cpu_id = 0\<rparr>"

text \<open>
  The register file of the four sub-blocks and the interrupt table, as one aggregate.
  A banked register is a function of the CPU; an array register a function of the index;
  \<^verbatim>\<open>reg.bank(cpu, idx)\<close> is \<open>reg s cpu idx\<close>. A field \<^verbatim>\<open>distif.x\<close> is \<open>distif_x\<close>,
  \<^verbatim>\<open>cpuif.x\<close> is \<open>cpuif_x\<close>, and so on; \<^verbatim>\<open>m_curr_irq\<close>, \<^verbatim>\<open>m_prev_irq\<close> belong to
  \<^verbatim>\<open>cpuif\<close> and \<^verbatim>\<open>m_lr_state\<close> to \<^verbatim>\<open>vifctrl\<close>. The spec names the constants
  \<^verbatim>\<open>NLR\<close> (the number of list registers) and \<^verbatim>\<open>VIRT_MIN_BPR\<close> without giving
  their values; the aggregate carries them as two fields that no operation writes, so
  every result holds for whatever value the header gives them.
\<close>

record gic400 =
  NLR :: nat
  VIRT_MIN_BPR :: nat
  m_irq_num :: nat
  m_cpu_num :: nat
  m_irq_state :: "nat \<Rightarrow> irq_state"
  irq_out :: "nat \<Rightarrow> bool"
  virq_out :: "nat \<Rightarrow> bool"
  distif_ctlr :: u32
  distif_ipriority_sgi :: "nat \<Rightarrow> nat \<Rightarrow> u8"
  distif_ipriority_ppi :: "nat \<Rightarrow> nat \<Rightarrow> u8"
  distif_ipriority_spi :: "nat \<Rightarrow> u8"
  distif_itargets_spi :: "nat \<Rightarrow> u8"
  distif_spendsgir :: "nat \<Rightarrow> nat \<Rightarrow> u8"
  distif_cpendsgir :: "nat \<Rightarrow> nat \<Rightarrow> u8"
  cpuif_ctlr :: "nat \<Rightarrow> u32"
  cpuif_pmr :: "nat \<Rightarrow> u32"
  cpuif_bpr :: "nat \<Rightarrow> u32"
  cpuif_abpr :: "nat \<Rightarrow> u32"
  cpuif_iar :: "nat \<Rightarrow> u32"
  cpuif_rpr :: "nat \<Rightarrow> u32"
  cpuif_hppir :: "nat \<Rightarrow> u32"
  m_curr_irq :: "nat \<Rightarrow> nat"
  m_prev_irq :: "nat \<Rightarrow> nat \<Rightarrow> nat"
  m_lr_state :: "nat \<Rightarrow> nat \<Rightarrow> list_entry"
  vifctrl_hcr :: "nat \<Rightarrow> u32"
  vifctrl_apr :: "nat \<Rightarrow> u32"
  vifctrl_lr :: "nat \<Rightarrow> nat \<Rightarrow> u32"
  vcpuif_pmr :: "nat \<Rightarrow> u32"
  vcpuif_bpr :: "nat \<Rightarrow> u32"
  vcpuif_rpr :: "nat \<Rightarrow> u32"
  vcpuif_hppir :: "nat \<Rightarrow> u32"
  vcpuif_eoir :: "nat \<Rightarrow> u32"

text \<open>
  \<^verbatim>\<open>current_cpu()\<close> returns an \<^verbatim>\<open>int\<close>; the handlers of the distributor and of the
  CPU interface replace a negative value by 0 (after a warning).
\<close>

definition bank_of :: "int \<Rightarrow> nat" where
  "bank_of cpu = (if cpu < 0 then 0 else nat cpu)"

subsection \<open>Interrupt table accessors\<close>

text \<open>
  Modelled from the spec: the inline accessors of the interrupt table declared in
  gic400.h (\<^verbatim>\<open>enable_irq\<close>, \<^verbatim>\<open>disable_irq\<close>, \<^verbatim>\<open>is_irq_enabled\<close>,
  \<^verbatim>\<open>set_irq_pending\<close>, \<^verbatim>\<open>is_irq_pending\<close>, \<^verbatim>\<open>set_irq_active\<close>, \<^verbatim>\<open>is_irq_active\<close>,
  \<^verbatim>\<open>set_irq_level\<close>, \<^verbatim>\<open>get_irq_level\<close>, \<^verbatim>\<open>set_irq_signaled\<close>, \<^verbatim>\<open>irq_signaled\<close>,
  \<^verbatim>\<open>get_irq_model\<close>, \<^verbatim>\<open>get_irq_trigger\<close>, \<^verbatim>\<open>get_irq_num\<close>). Section 3.2 describes
  each flag as a bitmask indexed by CPU: a setter ors the CPU mask into the flag of
  the interrupt or removes it, a getter tests whether the flag and the mask meet. The
  callers pass the mask as an \<^verbatim>\<open>unsigned int\<close>; the flags keep its low 8 bits.
\<close>

definition enable_irq :: "gic400 \<Rightarrow> nat \<Rightarrow> u32 \<Rightarrow> gic400" where
  "enable_irq s irq msk =
     s\<lparr>m_irq_state := (m_irq_state s)
        (irq := (m_irq_state s irq)\<lparr>enabled := enabled (m_irq_state s irq) OR ucast msk\<rparr>)\<rparr>"

definition disable_irq :: "gic400 \<Rightarrow> nat \<Rightarrow> u32 \<Rightarrow> gic400" where
  "disable_irq s irq msk =
     s\<lparr>m_irq_state := (m_irq_state s)
        (irq := (m_irq_state s irq)\<lparr>enabled := enabled (m_irq_state s irq) AND NOT (ucast msk)\<rparr>)\<rparr>"

definition is_irq_enabled :: "gic400 \<Rightarrow> nat \<Rightarrow> u32 \<Rightarrow> bool" where
  "is_irq_enabled s irq msk \<longleftrightarrow> ucast (enabled (m_irq_state s irq)) AND msk \<noteq> 0"

definition set_irq_pending :: "gic400 \<Rightarrow> nat \<Rightarrow> bool \<Rightarrow> u32 \<Rightarrow> gic400" where
  "set_irq_pending s irq pend msk =
     s\<lparr>m_irq_state := (m_irq_state s)
        (irq := (m_irq_state s irq)\<lparr>pending :=
           (if pend then pending (m_irq_state s irq) OR ucast msk
            else pending (m_irq_state s irq) AND NOT (ucast msk))\<rparr>)\<rparr>"

definition is_irq_pending :: "gic400 \<Rightarrow> nat \<Rightarrow> u32 \<Rightarrow> bool" where
  "is_irq_pending s irq msk \<longleftrightarrow> ucast (pending (m_irq_state s irq)) AND msk \<noteq> 0"

definition set_irq_active :: "gic400 \<Rightarrow> nat \<Rightarrow> bool \<Rightarrow> u32 \<Rightarrow> gic400" where
  "set_irq_active s irq act msk =
     s\<lparr>m_irq_state := (m_irq_state s)
        (irq := (m_irq_state s irq)\<lparr>active :=
           (if act then active (m_irq_state s irq) OR ucast msk
            else active (m_irq_state s irq) AND NOT (ucast msk))\<rparr>)\<rparr>"

definition is_irq_active :: "gic400 \<Rightarrow> nat \<Rightarrow> u32 \<Rightarrow> bool" where
  "is_irq_active s irq msk \<longleftrightarrow> ucast (active (m_irq_state s irq)) AND msk \<noteq> 0"

definition set_irq_level :: "gic400 \<Rightarrow> nat \<Rightarrow> bool \<Rightarrow> u32 \<Rightarrow> gic400" where
  "set_irq_level s irq lvl msk =
     s\<lparr>m_irq_state := (m_irq_state s)
        (irq := (m_irq_state s irq)\<lparr>level :=
           (if lvl then level (m_irq_state s irq) OR ucast msk
            else level (m_irq_state s irq) AND NOT (ucast msk))\<rparr>)\<rparr>"

definition get_irq_level :: "gic400 \<Rightarrow> nat \<Rightarrow> u32 \<Rightarrow> bool" where
  "get_irq_level s irq msk \<longleftrightarrow> ucast (level (m_irq_state s irq)) AND msk \<noteq> 0"

definition set_irq_signaled :: "gic400 \<Rightarrow> nat \<Rightarrow> bool \<Rightarrow> u32 \<Rightarrow> gic400" where
  "set_irq_signaled s irq sig msk =
     s\<lparr>m_irq_state := (m_irq_state s)
        (irq := (m_irq_state s irq)\<lparr>signaled :=
           (if sig then signaled (m_irq_state s irq) OR ucast msk
            else signaled (m_irq_state s irq) AND NOT (ucast msk))\<rparr>)\<rparr>"

definition irq_signaled :: "gic400 \<Rightarrow> nat \<Rightarrow> u32 \<Rightarrow> bool" where
  "irq_signaled s irq msk \<longleftrightarrow> ucast (signaled (m_irq_state s irq)) AND msk \<noteq> 0"

definition get_irq_model :: "gic400 \<Rightarrow> nat \<Rightarrow> handling_model" where
  "get_irq_model s irq = model (m_irq_state s irq)"

definition get_irq_trigger :: "gic400 \<Rightarrow> nat \<Rightarrow> trigger_mode" where
  "get_irq_trigger s irq = trigger (m_irq_state s irq)"

definition get_irq_num :: "gic400 \<Rightarrow> nat" where
  "get_irq_num s = m_irq_num s"

text \<open>
  Modelled from the spec: \<^verbatim>\<open>test_pending\<close> of gic400.h, the pending test of the
  arbitration. Sections 3.2 and 4.9: the pending bit counts, and a level-triggered
  interrupt whose input is still asserted counts as pending again (until it has been
  signalled to the CPU, the flag that \<^verbatim>\<open>read_iar\<close> sets and a change of the input
  clears).
\<close>

definition test_pending :: "gic400 \<Rightarrow> nat \<Rightarrow> u32 \<Rightarrow> bool" where
  "test_pending s irq msk \<longleftrightarrow>
     is_irq_pending s irq msk \<or>
     (get_irq_trigger s irq = LEVEL \<and> get_irq_level s irq msk \<and> \<not> irq_signaled s irq msk)"

text \<open>
  Modelled from the spec: \<^verbatim>\<open>ctz\<close> and \<^verbatim>\<open>fls\<close> of bitops.h, which is not among the
  sources. \<^verbatim>\<open>ctz\<close> counts the zero bits below the lowest set bit (section 4.7: the
  lowest bit wins), 32 for the value 0; \<^verbatim>\<open>fls\<close> is the index of the highest set bit,
  -1 for the value 0.
\<close>

definition ctz :: "u32 \<Rightarrow> nat" where
  "ctz w = length (takeWhile (\<lambda>n. \<not> bit w n) [0..<32])"

definition clz :: "u32 \<Rightarrow> nat" where
  "clz w = length (takeWhile (\<lambda>n. \<not> bit w n) (rev [0..<32]))"

definition fls :: "u32 \<Rightarrow> int" where
  "fls w = 31 - int (clz w)"

subsection \<open>Distributor\<close>

text \<open>\<^verbatim>\<open>gic400::get_irq_priority\<close>, gic400.cpp lines 1252-1262.\<close>

definition get_irq_priority :: "gic400 \<Rightarrow> nat \<Rightarrow> nat \<Rightarrow> u8" where
  "get_irq_priority s cpu irq =
     (if irq < NSGI then distif_ipriority_sgi s cpu irq
      else if irq < NPRIV then distif_ipriority_ppi s cpu (irq - NSGI)
      else if irq < NIRQ then distif_ipriority_spi s (irq - NPRIV)
      else 0)"

text \<open>\<^verbatim>\<open>gic400::distif::set_sgi_pending\<close>, gic400.cpp lines 625-634.\<close>

definition set_sgi_pending :: "gic400 \<Rightarrow> u8 \<Rightarrow> nat \<Rightarrow> nat \<Rightarrow> bool \<Rightarrow> gic400" where
  "set_sgi_pending s v sgi cpu st =
     (if st
      then s\<lparr>distif_spendsgir := (distif_spendsgir s)
                (cpu := (distif_spendsgir s cpu)(sgi := distif_spendsgir s cpu sgi OR v)),
             distif_cpendsgir := (distif_cpendsgir s)
                (cpu := (distif_cpendsgir s cpu)(sgi := distif_cpendsgir s cpu sgi OR v))\<rparr>
      else s\<lparr>distif_spendsgir := (distif_spendsgir s)
                (cpu := (distif_spendsgir s cpu)(sgi := distif_spendsgir s cpu sgi AND NOT v)),
             distif_cpendsgir := (distif_cpendsgir s)
                (cpu := (distif_cpendsgir s cpu)(sgi := distif_cpendsgir s cpu sgi AND NOT v))\<rparr>)"

subsection \<open>Arbitration: \<^verbatim>\<open>gic400::update\<close>\<close>

text \<open>
  \<^verbatim>\<open>gic400::update\<close>, gic400.cpp lines 1145-1250. The three scans of the physical
  side and the scan of the list registers are folds over the index ranges of the
  \<^verbatim>\<open>for\<close> loops, each step one loop body acting on the pair
  \<^verbatim>\<open>(best_irq, best_prio)\<close>; the priority bytes are promoted to \<^verbatim>\<open>unsigned int\<close> for
  the comparison, which \<open>unat\<close> expresses. \<open>cpu_bit cpu\<close> is the source's
  \<^verbatim>\<open>1 << cpu\<close>.
\<close>

definition cpu_bit :: "nat \<Rightarrow> u32" where
  "cpu_bit cpu = push_bit cpu 1"

definition check_sgi :: "gic400 \<Rightarrow> nat \<Rightarrow> nat \<Rightarrow> nat \<times> nat \<Rightarrow> nat \<times> nat" where
  "check_sgi s cpu irq best =
     (if is_irq_enabled s irq (cpu_bit cpu) \<and> test_pending s irq (cpu_bit cpu) \<and>
         \<not> is_irq_active s irq (cpu_bit cpu)
      then (if unat (distif_ipriority_sgi s cpu irq) < snd best
            then (irq, unat (distif_ipriority_sgi s cpu irq)) else best)
      else best)"

definition check_ppi :: "gic400 \<Rightarrow> nat \<Rightarrow> nat \<Rightarrow> nat \<times> nat \<Rightarrow> nat \<times> nat" where
  "check_ppi s cpu irq best =
     (if is_irq_enabled s irq (cpu_bit cpu) \<and> test_pending s irq (cpu_bit cpu) \<and>
         \<not> is_irq_active s irq (cpu_bit cpu)
      then (let idx = irq - NSGI in
            if unat (distif_ipriority_ppi s cpu idx) < snd best
            then (irq, unat (distif_ipriority_ppi s cpu idx)) else best)
      else best)"

definition check_spi :: "gic400 \<Rightarrow> nat \<Rightarrow> nat \<Rightarrow> nat \<times> nat \<Rightarrow> nat \<times> nat" where
  "check_spi s cpu irq best =
     (let idx = irq - NPRIV in
      if is_irq_enabled s irq (cpu_bit cpu) \<and> test_pending s irq (cpu_bit cpu) \<and>
         ucast (distif_itargets_spi s idx) AND cpu_bit cpu \<noteq> 0 \<and>
         \<not> is_irq_active s irq (cpu_bit cpu)
      then (if unat (distif_ipriority_spi s idx) < snd best
            then (irq, unat (distif_ipriority_spi s idx)) else best)
      else best)"

text \<open>
  Modelled from the spec: \<^verbatim>\<open>vifctrl::is_lr_pending\<close> and the other accessors of the
  list-register table declared in gic400.h; each reads or writes one field of
  \<^verbatim>\<open>m_lr_state[cpu][idx]\<close> (section 3.2).
\<close>

definition is_lr_pending :: "gic400 \<Rightarrow> nat \<Rightarrow> nat \<Rightarrow> bool" where
  "is_lr_pending s idx cpu = le_pending (m_lr_state s cpu idx)"

definition is_lr_active :: "gic400 \<Rightarrow> nat \<Rightarrow> nat \<Rightarrow> bool" where
  "is_lr_active s idx cpu = le_active (m_lr_state s cpu idx)"

definition is_lr_hw :: "gic400 \<Rightarrow> nat \<Rightarrow> nat \<Rightarrow> bool" where
  "is_lr_hw s idx cpu = le_hw (m_lr_state s cpu idx)"

definition get_lr_physid :: "gic400 \<Rightarrow> nat \<Rightarrow> nat \<Rightarrow> u16" where
  "get_lr_physid s idx cpu = le_physical_id (m_lr_state s cpu idx)"

definition get_lr_cpuid :: "gic400 \<Rightarrow> nat \<Rightarrow> nat \<Rightarrow> u8" where
  "get_lr_cpuid s idx cpu = le_cpu_id (m_lr_state s cpu idx)"

definition upd_lr :: "gic400 \<Rightarrow> nat \<Rightarrow> nat \<Rightarrow> (list_entry \<Rightarrow> list_entry) \<Rightarrow> gic400" where
  "upd_lr s idx cpu f =
     s\<lparr>m_lr_state := (m_lr_state s)(cpu := (m_lr_state s cpu)(idx := f (m_lr_state s cpu idx)))\<rparr>"

definition set_lr_pending :: "gic400 \<Rightarrow> nat \<Rightarrow> nat \<Rightarrow> bool \<Rightarrow> gic400" where
  "set_lr_pending s idx cpu p = upd_lr s idx cpu (\<lambda>e. e\<lparr>le_pending := p\<rparr>)"

definition set_lr_active :: "gic400 \<Rightarrow> nat \<Rightarrow> nat \<Rightarrow> bool \<Rightarrow> gic400" where
  "set_lr_active s idx cpu a = upd_lr s idx cpu (\<lambda>e. e\<lparr>le_active := a\<rparr>)"

definition set_lr_hw :: "gic400 \<Rightarrow> nat \<Rightarrow> nat \<Rightarrow> bool \<Rightarrow> gic400" where
  "set_lr_hw s idx cpu h = upd_lr s idx cpu (\<lambda>e. e\<lparr>le_hw := h\<rparr>)"

definition set_lr_cpuid :: "gic400 \<Rightarrow> nat \<Rightarrow> nat \<Rightarrow> u8 \<Rightarrow> gic400" where
  "set_lr_cpuid s idx cpu i = upd_lr s idx cpu (\<lambda>e. e\<lparr>le_cpu_id := i\<rparr>)"

definition set_lr_physid :: "gic400 \<Rightarrow> nat \<Rightarrow> nat \<Rightarrow> u16 \<Rightarrow> gic400" where
  "set_lr_physid s idx cpu i = upd_lr s idx cpu (\<lambda>e. e\<lparr>le_physical_id := i\<rparr>)"

definition set_lr_prio :: "gic400 \<Rightarrow> nat \<Rightarrow> nat \<Rightarrow> u32 \<Rightarrow> gic400" where
  "set_lr_prio s idx cpu p = upd_lr s idx cpu (\<lambda>e. e\<lparr>le_prio := ucast p\<rparr>)"

definition set_lr_vid :: "gic400 \<Rightarrow> nat \<Rightarrow> nat \<Rightarrow> u32 \<Rightarrow> gic400" where
  "set_lr_vid s idx cpu i = upd_lr s idx cpu (\<lambda>e. e\<lparr>le_virtual_id := ucast i\<rparr>)"

definition check_lr :: "gic400 \<Rightarrow> nat \<Rightarrow> nat \<Rightarrow> nat \<times> nat \<Rightarrow> nat \<times> nat" where
  "check_lr s cpu lr_idx best =
     (if is_lr_pending s lr_idx cpu
      then (let prio = (ucast (drop_bit 23 (vifctrl_lr s cpu lr_idx AND push_bit 23 0x1f)) :: u8) in
            if unat prio < snd best
            then (unat (vifctrl_lr s cpu lr_idx AND 0x1ff), unat prio) else best)
      else best)"

definition update_cpu :: "gic400 \<Rightarrow> bool \<Rightarrow> nat \<Rightarrow> gic400" where
  "update_cpu s virt cpu =
     (let s1 = (if \<not> virt
                then s\<lparr>cpuif_hppir := (cpuif_hppir s)(cpu := of_nat SPURIOUS_IRQ)\<rparr>
                else s\<lparr>vcpuif_hppir := (vcpuif_hppir s)(cpu := of_nat SPURIOUS_IRQ)\<rparr>)
      in if \<not> virt \<and> (distif_ctlr s1 = 0 \<or> cpuif_ctlr s1 cpu = 0)
         then s1\<lparr>irq_out := (irq_out s1)(cpu := False)\<rparr>
         else if virt \<and> vifctrl_hcr s1 cpu = 0
         then s1\<lparr>virq_out := (virq_out s1)(cpu := False)\<rparr>
         else
           (let best =
                  (if \<not> virt
                   then fold (check_spi s1 cpu) [NPRIV..<m_irq_num s1]
                          (fold (check_ppi s1 cpu) [NSGI..<NPRIV]
                            (fold (check_sgi s1 cpu) [0..<NSGI] (SPURIOUS_IRQ, IDLE_PRIO)))
                   else fold (check_lr s1 cpu) [0..<NLR s1] (SPURIOUS_IRQ, IDLE_PRIO));
                best_irq = fst best;
                best_prio = snd best
            in if \<not> virt
               then
                 (let s2 = (if best_prio < unat (cpuif_pmr s1 cpu)
                            then s1\<lparr>cpuif_hppir := (cpuif_hppir s1)(cpu := of_nat best_irq)\<rparr>
                            else s1);
                      lvl = (best_prio < unat (cpuif_pmr s1 cpu) \<and>
                             best_prio < unat (cpuif_rpr s1 cpu))
                  in s2\<lparr>irq_out := (irq_out s2)(cpu := lvl)\<rparr>)
               else
                 (let s2 = (if best_prio < unat (vcpuif_pmr s1 cpu)
                            then s1\<lparr>vcpuif_hppir := (vcpuif_hppir s1)(cpu := of_nat best_irq)\<rparr>
                            else s1);
                      lvl = (best_prio < unat (vcpuif_pmr s1 cpu) \<and>
                             best_prio < unat (vcpuif_rpr s1 cpu))
                  in s2\<lparr>virq_out := (virq_out s2)(cpu := lvl)\<rparr>)))"

definition update :: "gic400 \<Rightarrow> bool \<Rightarrow> gic400" where
  "update s virt = fold (\<lambda>cpu s'. update_cpu s' virt cpu) [0..<m_cpu_num s] s"

subsection \<open>Distributor write handlers\<close>

text \<open>\<^verbatim>\<open>gic400::distif::write_ctlr\<close>, gic400.cpp lines 78-83; \<^verbatim>\<open>CTRL_MASK\<close> is 3.\<close>

definition distif_write_ctlr :: "gic400 \<Rightarrow> u32 \<Rightarrow> gic400" where
  "distif_write_ctlr s val = update (s\<lparr>distif_ctlr := val AND 3\<rparr>) False"

text \<open>
  \<^verbatim>\<open>gic400::distif::write_sspr\<close>, gic400.cpp lines 235-243, the handler of the SPI
  set-pending registers. The loop over the 32 bits is a fold; the CPU mask passed to
  \<^verbatim>\<open>set_irq_pending\<close> is \<^verbatim>\<open>itargets_spi[i]\<close>, as the source has it.
\<close>

definition write_sspr_bit :: "u32 \<Rightarrow> nat \<Rightarrow> nat \<Rightarrow> gic400 \<Rightarrow> gic400" where
  "write_sspr_bit val irq i s =
     (if val AND push_bit i 1 \<noteq> 0
      then set_irq_pending s (irq + i) True (ucast (distif_itargets_spi s i))
      else s)"

definition write_sspr :: "gic400 \<Rightarrow> u32 \<Rightarrow> nat \<Rightarrow> gic400" where
  "write_sspr s val idx =
     (let irq = NPRIV + idx * 32
      in update (fold (write_sspr_bit val irq) [0..<32] s) False)"

text \<open>\<^verbatim>\<open>gic400::distif::write_sgir\<close>, gic400.cpp lines 384-421.\<close>

definition write_sgir_target :: "nat \<Rightarrow> nat \<Rightarrow> u32 \<Rightarrow> nat \<Rightarrow> gic400 \<Rightarrow> gic400" where
  "write_sgir_target cpu sgi_num targets target s =
     (if targets AND push_bit target 1 \<noteq> 0
      then set_sgi_pending s (ucast (cpu_bit cpu)) sgi_num target True
      else s)"

definition write_sgir :: "gic400 \<Rightarrow> int \<Rightarrow> u32 \<Rightarrow> gic400" where
  "write_sgir s cur val =
     (let cpu = bank_of cur;
          src_cpu = cpu_bit cpu;
          sgi_num = unat (val AND 0x0f);
          targets0 = drop_bit 16 val AND 0xff;
          filters = drop_bit 24 val AND 0x03;
          targets = (if filters = 0 then targets0
                     else if filters = 1 then ALL_CPU XOR src_cpu
                     else if filters = 2 then cpu_bit cpu
                     else targets0);
          s1 = set_irq_pending s sgi_num True targets;
          s2 = fold (write_sgir_target cpu sgi_num targets) [0..<NCPU] s1;
          s3 = set_irq_signaled s2 sgi_num False targets
      in update s3 False)"

subsection \<open>CPU interface\<close>

text \<open>\<^verbatim>\<open>gic400::cpuif::set_current_irq\<close>, gic400.cpp lines 642-651.\<close>

definition set_current_irq :: "gic400 \<Rightarrow> nat \<Rightarrow> nat \<Rightarrow> gic400" where
  "set_current_irq s cpu irq =
     (let s1 = s\<lparr>m_curr_irq := (m_curr_irq s)(cpu := irq)\<rparr>;
          s2 = (if irq = SPURIOUS_IRQ
                then s1\<lparr>cpuif_rpr := (cpuif_rpr s1)(cpu := 0x100)\<rparr>
                else s1\<lparr>cpuif_rpr := (cpuif_rpr s1)(cpu := ucast (get_irq_priority s1 cpu irq))\<rparr>)
      in update s2 False)"

text \<open>
  \<^verbatim>\<open>gic400::cpuif::write_ctlr\<close> and \<^verbatim>\<open>write_pmr\<close>, gic400.cpp lines 653-663;
  \<^verbatim>\<open>CTLR_ENABLE()\<close> is bit 0.
\<close>

definition cpuif_write_ctlr :: "gic400 \<Rightarrow> nat \<Rightarrow> u32 \<Rightarrow> gic400" where
  "cpuif_write_ctlr s cpu val = s\<lparr>cpuif_ctlr := (cpuif_ctlr s)(cpu := val AND 1)\<rparr>"

definition cpuif_write_pmr :: "gic400 \<Rightarrow> nat \<Rightarrow> u32 \<Rightarrow> gic400" where
  "cpuif_write_pmr s cpu val = s\<lparr>cpuif_pmr := (cpuif_pmr s)(cpu := val AND 0x000000ff)\<rparr>"

text \<open>
  \<^verbatim>\<open>gic400::cpuif::write_bpr\<close>, gic400.cpp lines 665-668. Both registers are banked
  and the assignment goes to the bank of the writing CPU.
\<close>

definition cpuif_write_bpr :: "gic400 \<Rightarrow> nat \<Rightarrow> u32 \<Rightarrow> gic400" where
  "cpuif_write_bpr s cpu val =
     (let s1 = s\<lparr>cpuif_abpr := (cpuif_abpr s)(cpu := val AND 0x7)\<rparr>
      in s1\<lparr>cpuif_bpr := (cpuif_bpr s1)(cpu := cpuif_abpr s1 cpu)\<rparr>)"

text \<open>
  The \<^verbatim>\<open>while\<close> loop of \<^verbatim>\<open>gic400::cpuif::write_eoir\<close>, gic400.cpp lines 695-703: it
  walks the \<^verbatim>\<open>m_prev_irq\<close> links of the CPU from \<open>iter\<close> and splices \<open>irq\<close> out of
  the chain. On a cyclic chain that does not hold \<open>irq\<close> the loop never ends; the
  result is then \<open>None\<close>.
\<close>

partial_function (option) eoir_unlink ::
  "(nat \<Rightarrow> nat \<Rightarrow> nat) \<Rightarrow> nat \<Rightarrow> nat \<Rightarrow> nat \<Rightarrow> (nat \<Rightarrow> nat \<Rightarrow> nat) option" where
  "eoir_unlink prev cpu irq iter =
     (if prev iter cpu \<noteq> SPURIOUS_IRQ
      then (if prev iter cpu = irq
            then Some (prev(iter := (prev iter)(cpu := prev irq cpu)))
            else eoir_unlink prev cpu irq (prev iter cpu))
      else Some prev)"

text \<open>
  \<^verbatim>\<open>gic400::cpuif::write_eoir\<close>, gic400.cpp lines 670-704. The result pairs the
  warnings logged with the new state.
\<close>

datatype log_entry = Warn string

definition cpuif_write_eoir :: "gic400 \<Rightarrow> int \<Rightarrow> u32 \<Rightarrow> (log_entry list \<times> gic400) option" where
  "cpuif_write_eoir s cur val =
     (let w1 = (if cur < 0 then [Warn ''(eoi) invalid cpu, assuming 0''] else []);
          cpu = bank_of cur
      in if m_curr_irq s cpu = SPURIOUS_IRQ then Some (w1, s)
         else
           (let irq = unat (val AND 0x3ff)
            in if irq \<ge> get_irq_num s
               then Some (w1 @ [Warn ''(eoi) invalid irq ignored''], s)
               else if irq = m_curr_irq s cpu
               then
                 (let s1 = set_current_irq s cpu (m_prev_irq s irq cpu);
                      s2 = set_irq_active s1 irq False (cpu_bit cpu)
                  in Some (w1, update s2 False))
               else
                 (case eoir_unlink (m_prev_irq s) cpu irq (m_curr_irq s cpu) of
                    None \<Rightarrow> None
                  | Some prev' \<Rightarrow> Some (w1, s\<lparr>m_prev_irq := prev'\<rparr>))))"

text \<open>
  \<^verbatim>\<open>gic400::cpuif::read_iar\<close>, gic400.cpp lines 706-748. \<^verbatim>\<open>VCML_ERROR_ON\<close> raises
  a report when the source CPU computed by \<^verbatim>\<open>ctz\<close> exceeds 8. The result pairs the
  value read with the new state.
\<close>

definition cpuif_read_iar :: "gic400 \<Rightarrow> int \<Rightarrow> vcml_report + (u32 \<times> gic400)" where
  "cpuif_read_iar s cur =
     (let cpu = bank_of cur;
          irq = unat (cpuif_hppir s cpu);
          cpu_mask = (if get_irq_model s irq = N_1 then ALL_CPU else cpu_bit cpu)
      in if irq = SPURIOUS_IRQ \<or>
            unat (get_irq_priority s cpu irq) \<ge> unat (cpuif_rpr s cpu)
         then Inr (of_nat SPURIOUS_IRQ, s)
         else
           (let ack = (\<lambda>v s2.
                  (let s3 = s2\<lparr>cpuif_iar := (cpuif_iar s2)(cpu := v)\<rparr>;
                       s4 = s3\<lparr>m_prev_irq := (m_prev_irq s3)
                                (irq := (m_prev_irq s3 irq)(cpu := m_curr_irq s3 cpu))\<rparr>;
                       s5 = set_current_irq s4 cpu irq;
                       s6 = set_irq_active s5 irq True cpu_mask;
                       s7 = set_irq_signaled s6 irq True cpu_mask
                   in Inr (cpuif_iar s7 cpu, s7)))
            in if irq < NSGI
               then
                 (let pend = (ucast (distif_spendsgir s cpu irq) :: u32);
                      src_cpu = ctz pend
                  in if src_cpu > 8 then Inl (Report ''invalid src_cpu'')
                     else
                       (let s1 = set_sgi_pending s (ucast (push_bit src_cpu (1::u32))) irq cpu False;
                            s2 = (if distif_spendsgir s1 cpu irq = 0
                                  then set_irq_pending s1 irq False cpu_mask else s1)
                        in ack (push_bit 10 (of_nat src_cpu AND 0x7) OR of_nat irq) s2))
               else ack (of_nat irq) (set_irq_pending s irq False cpu_mask)))"

subsection \<open>Virtual interface control\<close>

text \<open>
  \<^verbatim>\<open>gic400::vifctrl::write_hcr\<close> and \<^verbatim>\<open>write_lr\<close>, gic400.cpp lines 837-840 and
  846-883. \<^verbatim>\<open>current_cpu()\<close> is taken as it is here (the source stores it in a
  \<^verbatim>\<open>u8\<close> without a check).
\<close>

definition write_hcr :: "gic400 \<Rightarrow> nat \<Rightarrow> u32 \<Rightarrow> gic400" where
  "write_hcr s cpu val = update (s\<lparr>vifctrl_hcr := (vifctrl_hcr s)(cpu := val)\<rparr>) True"

definition write_lr :: "gic400 \<Rightarrow> nat \<Rightarrow> u32 \<Rightarrow> nat \<Rightarrow> gic400" where
  "write_lr s cpu val idx =
     (let state = (ucast (drop_bit 28 val AND 0b11) :: u8);
          hw = (ucast (drop_bit 31 val AND 0b1) :: u8);
          s1 = (if hw = 0
                then
                  (let cpu_id = (ucast (drop_bit 10 val AND 0b111) :: u8);
                       a = set_lr_cpuid s idx cpu cpu_id;
                       b = set_lr_hw a idx cpu False
                   in set_lr_physid b idx cpu 0)
                else
                  (let a = set_lr_cpuid s idx cpu 0;
                       b = set_lr_hw a idx cpu True;
                       physid = (ucast (drop_bit 10 val AND 0x1ff) :: u16)
                   in set_lr_physid b idx cpu physid));
          s2 = (if state AND 1 \<noteq> 0 then set_lr_pending s1 idx cpu True else s1);
          s3 = (if state AND 2 \<noteq> 0 then set_lr_active s2 idx cpu True else s2);
          s4 = (if state = 0
                then set_lr_active (set_lr_pending s3 idx cpu False) idx cpu False
                else s3);
          prio = drop_bit 23 val AND 0x1f;
          irq = val AND 0x1ff;
          s5 = set_lr_prio s4 idx cpu prio;
          s6 = set_lr_vid s5 idx cpu irq;
          s7 = s6\<lparr>vifctrl_lr := (vifctrl_lr s6)(cpu := (vifctrl_lr s6 cpu)(idx := val))\<rparr>
      in update s7 True)"

text \<open>
  \<^verbatim>\<open>gic400::vifctrl::get_irq_priority\<close> and \<^verbatim>\<open>get_lr\<close>, gic400.cpp lines 931-953:
  the first list register of the CPU that holds the virtual id and is active or
  pending; 0 when there is none. \<^verbatim>\<open>get_lr\<close> returns the index as a \<^verbatim>\<open>u8\<close>.
\<close>

definition lr_matches :: "gic400 \<Rightarrow> nat \<Rightarrow> u32 \<Rightarrow> nat \<Rightarrow> bool" where
  "lr_matches s cpu irq i \<longleftrightarrow>
     ucast (le_virtual_id (m_lr_state s cpu i)) = irq \<and>
     (le_active (m_lr_state s cpu i) \<or> le_pending (m_lr_state s cpu i))"

definition vifctrl_get_irq_priority :: "gic400 \<Rightarrow> nat \<Rightarrow> u32 \<Rightarrow> u8" where
  "vifctrl_get_irq_priority s cpu irq =
     (case find (lr_matches s cpu irq) [0..<NLR s] of
        Some i \<Rightarrow> le_prio (m_lr_state s cpu i)
      | None \<Rightarrow> 0)"

definition get_lr :: "gic400 \<Rightarrow> u32 \<Rightarrow> nat \<Rightarrow> nat" where
  "get_lr s irq cpu =
     (case find (lr_matches s cpu irq) [0..<NLR s] of
        Some i \<Rightarrow> unat (of_nat i :: u8)
      | None \<Rightarrow> 0)"

subsection \<open>Virtual CPU interface\<close>

text \<open>
  \<^verbatim>\<open>gic400::vcpuif::read_iar\<close>, gic400.cpp lines 1000-1024. The mask
  \<^verbatim>\<open>~0ul << ((bpr & 7) + 1)\<close> is cut to 32 bits by the assignment. The result pairs
  the value read with the new state.
\<close>

definition vcpuif_read_iar :: "gic400 \<Rightarrow> nat \<Rightarrow> u32 \<times> gic400" where
  "vcpuif_read_iar s cpu =
     (let irq = vcpuif_hppir s cpu
      in if irq = of_nat SPURIOUS_IRQ \<or>
            unat (vifctrl_get_irq_priority s cpu irq) \<ge> unat (vcpuif_rpr s cpu)
         then (of_nat SPURIOUS_IRQ, s)
         else
           (let prio = (push_bit 3 (ucast (vifctrl_get_irq_priority s cpu irq)) :: u32);
                msk = (push_bit (unat (vcpuif_bpr s cpu AND 0x07) + 1) (- 1) :: u32);
                s1 = s\<lparr>vcpuif_rpr := (vcpuif_rpr s)(cpu := prio AND msk)\<rparr>;
                preemptlvl = drop_bit (VIRT_MIN_BPR s1 + 1) prio;
                bitno = unat preemptlvl mod 32;
                s2 = s1\<lparr>vifctrl_apr := (vifctrl_apr s1)
                         (cpu := vifctrl_apr s1 cpu OR push_bit bitno 1)\<rparr>;
                lr = get_lr s2 irq cpu;
                s3 = set_lr_active s2 lr cpu True;
                s4 = set_lr_pending s3 lr cpu False;
                s5 = update s4 True;
                cpu_id = get_lr_cpuid s5 lr cpu
            in (push_bit 10 (ucast cpu_id AND 0x111) OR irq, s5)))"

text \<open>
  \<^verbatim>\<open>gic400::vcpuif::write_eoir\<close>, gic400.cpp lines 1026-1061. Of the handlers only
  \<^verbatim>\<open>cpuif::write_eoir\<close> has its warnings recorded; here an invalid id leaves the
  state as it is.
\<close>

definition vcpuif_write_eoir :: "gic400 \<Rightarrow> nat \<Rightarrow> u32 \<Rightarrow> gic400" where
  "vcpuif_write_eoir s cpu val =
     (let irq = val AND 0x1ff
      in if unat irq \<ge> get_irq_num s then s
         else
           (let s1 = s\<lparr>vifctrl_apr := (vifctrl_apr s)
                         (cpu := vifctrl_apr s cpu AND (vifctrl_apr s cpu - 1))\<rparr>;
                apr = vifctrl_apr s1 cpu;
                s2 = (if apr \<noteq> 0
                      then s1\<lparr>vcpuif_rpr := (vcpuif_rpr s1)
                               (cpu := push_bit (VIRT_MIN_BPR s1 + 1) (word_of_int (fls apr)))\<rparr>
                      else s1\<lparr>vcpuif_rpr := (vcpuif_rpr s1)(cpu := of_nat IDLE_PRIO)\<rparr>);
                lr = get_lr s2 irq cpu;
                s3 = set_lr_active s2 lr cpu False;
                s4 = (if is_lr_hw s3 lr cpu
                      then (let physid = unat (get_lr_physid s3 lr cpu)
                            in if \<not> (physid < NSGI \<or> physid > NIRQ)
                               then set_irq_active s3 physid False (cpu_bit cpu)
                               else s3)
                      else s3);
                s5 = update s4 True
            in s5\<lparr>vcpuif_eoir := (vcpuif_eoir s5)(cpu := val)\<rparr>))"

subsection \<open>State after elaboration and reset\<close>

text \<open>
  The initial values of the constructors (gic400.cpp lines 455-486, 750-765, 955-964,
  1063-1076), \<^verbatim>\<open>cpuif::reset\<close> (lines 823-835) and \<^verbatim>\<open>distif::end_of_elaboration\<close>
  (lines 636-640), which enables the SGIs for every CPU, for a controller with the given
  numbers of CPUs and interrupts.
\<close>

definition gic_reset :: "nat \<Rightarrow> nat \<Rightarrow> nat \<Rightarrow> nat \<Rightarrow> gic400" where
  "gic_reset nlr min_bpr ncpu nirq =
     \<lparr>NLR = nlr, VIRT_MIN_BPR = min_bpr, m_irq_num = nirq, m_cpu_num = ncpu,
      m_irq_state = (\<lambda>irq. if irq < NSGI then irq_state_init\<lparr>enabled := 0xff\<rparr>
                            else irq_state_init),
      irq_out = (\<lambda>_. False), virq_out = (\<lambda>_. False),
      distif_ctlr = 0,
      distif_ipriority_sgi = (\<lambda>_ _. 0), distif_ipriority_ppi = (\<lambda>_ _. 0),
      distif_ipriority_spi = (\<lambda>_. 0), distif_itargets_spi = (\<lambda>_. 0),
      distif_spendsgir = (\<lambda>_ _. 0), distif_cpendsgir = (\<lambda>_ _. 0),
      cpuif_ctlr = (\<lambda>_. 0), cpuif_pmr = (\<lambda>_. 0), cpuif_bpr = (\<lambda>_. 0),
      cpuif_abpr = (\<lambda>_. 0), cpuif_iar = (\<lambda>_. 0),
      cpuif_rpr = (\<lambda>_. of_nat IDLE_PRIO), cpuif_hppir = (\<lambda>_. of_nat SPURIOUS_IRQ),
      m_curr_irq = (\<lambda>_. SPURIOUS_IRQ), m_prev_irq = (\<lambda>_ _. SPURIOUS_IRQ),
      m_lr_state = (\<lambda>_ _. list_entry_init),
      vifctrl_hcr = (\<lambda>_. 0), vifctrl_apr = (\<lambda>_. 0), vifctrl_lr = (\<lambda>_ _. 0),
      vcpuif_pmr = (\<lambda>_. 0), vcpuif_bpr = (\<lambda>_. 2),
      vcpuif_rpr = (\<lambda>_. of_nat IDLE_PRIO), vcpuif_hppir = (\<lambda>_. of_nat SPURIOUS_IRQ),
      vcpuif_eoir = (\<lambda>_. 0)\<rparr>"

subsection \<open>Results of the scans\<close>

text \<open>The pair \<^verbatim>\<open>(best_irq, best_prio)\<close> after the three physical scans.\<close>

definition scan_phys :: "gic400 \<Rightarrow> nat \<Rightarrow> nat \<times> nat" where
  "scan_phys s c =
     fold (check_spi s c) [NPRIV..<m_irq_num s]
       (fold (check_ppi s c) [NSGI..<NPRIV]
         (fold (check_sgi s c) [0..<NSGI] (SPURIOUS_IRQ, IDLE_PRIO)))"

text \<open>One scan step over an arbitrary candidate test and priority table.\<close>

definition pick :: "(nat \<Rightarrow> bool) \<Rightarrow> (nat \<Rightarrow> nat) \<Rightarrow> nat \<Rightarrow> nat \<times> nat \<Rightarrow> nat \<times> nat" where
  "pick cand prio irq best =
     (if cand irq \<and> prio irq < snd best then (irq, prio irq) else best)"

text \<open>The pair \<^verbatim>\<open>(best_irq, best_prio)\<close> after the scan of the list registers.\<close>

definition scan_virt :: "gic400 \<Rightarrow> nat \<Rightarrow> nat \<times> nat" where
  "scan_virt s c = fold (check_lr s c) [0..<NLR s] (SPURIOUS_IRQ, IDLE_PRIO)"

subsection \<open>Arbitration in the words of the spec\<close>

text \<open>
  The arbitration as the spec words it (section 4.6, section 5), to compare the scans
  with: an interrupt is a candidate for CPU \<open>c\<close> when it is enabled, pending and not
  active for \<open>c\<close> and, for an SPI, its own entry of the target table contains \<open>c\<close>; the
  best candidate has the lowest priority value, the lowest id among equals.
\<close>

definition spec_candidate :: "gic400 \<Rightarrow> nat \<Rightarrow> nat \<Rightarrow> bool" where
  "spec_candidate s c irq \<longleftrightarrow>
     is_irq_enabled s irq (cpu_bit c) \<and> test_pending s irq (cpu_bit c) \<and>
     \<not> is_irq_active s irq (cpu_bit c) \<and>
     (irq < NPRIV \<or> bit (distif_itargets_spi s (irq - NPRIV)) c)"

definition spec_best :: "gic400 \<Rightarrow> nat \<Rightarrow> nat \<Rightarrow> bool" where
  "spec_best s c w \<longleftrightarrow>
     w < m_irq_num s \<and> spec_candidate s c w \<and>
     (\<forall>j \<in> set [0..<m_irq_num s]. spec_candidate s c j \<longrightarrow>
        unat (get_irq_priority s c w) < unat (get_irq_priority s c j) \<or>
        (unat (get_irq_priority s c w) = unat (get_irq_priority s c j) \<and> w \<le> j))"

subsection \<open>Preemption chain\<close>

text \<open>
  The preemption chain of a CPU (section 3.2): \<^verbatim>\<open>m_curr_irq[cpu]\<close> followed through the
  \<^verbatim>\<open>m_prev_irq\<close> links down to the \<^verbatim>\<open>SPURIOUS\<close> sentinel.
\<close>

inductive on_chain :: "gic400 \<Rightarrow> nat \<Rightarrow> nat \<Rightarrow> bool" for s cpu where
  head: "m_curr_irq s cpu \<noteq> SPURIOUS_IRQ \<Longrightarrow> on_chain s cpu (m_curr_irq s cpu)"
| link: "on_chain s cpu irq \<Longrightarrow> m_prev_irq s irq cpu \<noteq> SPURIOUS_IRQ \<Longrightarrow>
         on_chain s cpu (m_prev_irq s irq cpu)"

subsection \<open>List-register values\<close>

text \<open>
  The list-register values of the scenario of section 8: \<^verbatim>\<open>hw = 1\<close> (bit 31), state
  pending (bits 29-28 = 01), \<^verbatim>\<open>physical_id = 42\<close> (bits 18-10) and \<^verbatim>\<open>virtual_id = 10\<close>
  (bits 8-0); the priority field (bits 27-23) is free.
\<close>

definition lr_hw_request :: "u32 \<Rightarrow> bool" where
  "lr_hw_request val \<longleftrightarrow>
     drop_bit 31 val AND 1 = 1 \<and> drop_bit 28 val AND 3 = 1 \<and>
     drop_bit 10 val AND 0x1ff = 42 \<and> val AND 0x1ff = 10"

text \<open>The priority field (bits 27-23) of a list-register value, as \<^verbatim>\<open>update\<close> reads it.\<close>

definition lr_prio_field :: "u32 \<Rightarrow> nat" where
  "lr_prio_field v = unat (drop_bit 23 v AND 0x1f)"

subsection \<open>Example states\<close>

text \<open>
  A controller with one CPU and no SPIs after reset, in which the virtual CPU interface
  of CPU 0 has the two preemption levels 1 and 2 active.
\<close>

definition apr_example :: gic400 where
  "apr_example = (gic_reset 4 2 1 32)\<lparr>vifctrl_apr := (\<lambda>_. 6)\<rparr>"

text \<open>The reset state of the same controller with interrupt 5 running on CPU 0.\<close>

definition running_example :: gic400 where
  "running_example = (gic_reset 4 2 1 32)\<lparr>m_curr_irq := (\<lambda>_. 5)\<rparr>"

text \<open>
  A controller with two CPUs and 64 SPIs after reset, in which SPI 32 (entry 0 of the
  target table) is routed to CPU 0 and SPI 64 (entry 32) to CPU 1.
\<close>

definition sspr_example :: gic400 where
  "sspr_example =
     (gic_reset 4 2 2 96)\<lparr>distif_itargets_spi := (\<lambda>i. if i = 0 then 1 else if i = 32 then 2 else 0)\<rparr>"

text \<open>
  A controller with two CPUs after reset in which SGI 3 is pending for CPU 1, raised by
  the CPUs 0 and 2 (source mask 5), and is the highest-priority pending interrupt of
  CPU 1; CPU 0 has none.
\<close>

definition sgi_example :: gic400 where
  "sgi_example =
     (gic_reset 4 2 2 32)
       \<lparr>m_irq_state := (\<lambda>irq. if irq < NSGI
                                then irq_state_init\<lparr>enabled := 0xff, pending := (if irq = 3 then 2 else 0)\<rparr>
                                else irq_state_init),
        distif_spendsgir := (\<lambda>cpu sgi. if cpu = 1 \<and> sgi = 3 then 5 else 0),
        distif_cpendsgir := (\<lambda>cpu sgi. if cpu = 1 \<and> sgi = 3 then 5 else 0),
        cpuif_hppir := (\<lambda>cpu. if cpu = 1 then 3 else of_nat SPURIOUS_IRQ)\<rparr>"

text \<open>
  A controller with one CPU and two SPIs, distributor and CPU interface enabled and
  the priority mask open, in which SGI 2 and SPI 33 are pending with the same priority
  0x10; and the same state with the distributor disabled.
\<close>

definition arb_example :: gic400 where
  "arb_example =
     (gic_reset 4 2 1 34)
       \<lparr>m_irq_state := (\<lambda>irq. if irq = 2 then irq_state_init\<lparr>enabled := 0xff, pending := 1\<rparr>
                              else if irq = 33 then irq_state_init\<lparr>enabled := 1, pending := 1\<rparr>
                              else if irq < NSGI then irq_state_init\<lparr>enabled := 0xff\<rparr>
                              else irq_state_init),
        distif_ipriority_sgi := (\<lambda>cpu irq. 0x10),
        distif_ipriority_spi := (\<lambda>idx. 0x10),
        distif_itargets_spi := (\<lambda>idx. 1),
        distif_ctlr := 1,
        cpuif_ctlr := (\<lambda>cpu. 1),
        cpuif_pmr := (\<lambda>cpu. 0xff)\<rparr>"

definition arb_disabled :: gic400 where
  "arb_disabled = arb_example\<lparr>distif_ctlr := 0\<rparr>"

text \<open>
  A run of a controller with one CPU from reset. The distributor and the CPU interface
  are enabled, the priority mask is opened and the priority of SGI 1 is set to 0x80
  (\<open>ooo_s4\<close>; the priority registers have no write handler). CPU 0 raises SGI 1 for
  itself (\<open>ooo_s5\<close>) and acknowledges it (\<open>ooo_s6\<close>), raises SGI 0, of priority 0, for
  itself (\<open>ooo_s7\<close>) and acknowledges it (\<open>ooo_s8\<close>), then writes 1 to EOIR while SGI 0
  is still running (\<open>ooo_s9\<close>). The states \<open>ooo_s6\<close>, \<open>ooo_s8\<close> and \<open>ooo_s9\<close> are written
  out; that they are the results of the handlers is proved below.
\<close>

definition ooo_s4 :: gic400 where
  "ooo_s4 =
     (let s1 = distif_write_ctlr (gic_reset 4 2 1 32) 1;
          s2 = cpuif_write_ctlr s1 0 1;
          s3 = cpuif_write_pmr s2 0 0xff
      in s3\<lparr>distif_ipriority_sgi := (distif_ipriority_sgi s3)(0 := (distif_ipriority_sgi s3 0)(1 := 0x80))\<rparr>)"

definition ooo_s5 :: gic400 where
  "ooo_s5 = write_sgir ooo_s4 0 0x02000001"

definition ooo_s6 :: gic400 where
  "ooo_s6 =
     (gic_reset 4 2 1 32)
       \<lparr>m_irq_state := (\<lambda>irq. if irq = 1 then irq_state_init\<lparr>enabled := 0xff, active := 1, signaled := 1\<rparr>
                              else if irq < NSGI then irq_state_init\<lparr>enabled := 0xff\<rparr>
                              else irq_state_init),
        distif_ctlr := 1,
        distif_ipriority_sgi := (\<lambda>cpu irq. if cpu = 0 \<and> irq = 1 then 0x80 else 0),
        cpuif_ctlr := (\<lambda>cpu. if cpu = 0 then 1 else 0),
        cpuif_pmr := (\<lambda>cpu. if cpu = 0 then 0xff else 0),
        cpuif_iar := (\<lambda>cpu. if cpu = 0 then 1 else 0),
        cpuif_rpr := (\<lambda>cpu. if cpu = 0 then 0x80 else 0x100),
        m_curr_irq := (\<lambda>cpu. if cpu = 0 then 1 else SPURIOUS_IRQ)\<rparr>"

definition ooo_s7 :: gic400 where
  "ooo_s7 = write_sgir ooo_s6 0 0x02000000"

definition ooo_s8 :: gic400 where
  "ooo_s8 =
     ooo_s6
       \<lparr>m_irq_state := (\<lambda>irq. if irq = 0 \<or> irq = 1
                              then irq_state_init\<lparr>enabled := 0xff, active := 1, signaled := 1\<rparr>
                              else if irq < NSGI then irq_state_init\<lparr>enabled := 0xff\<rparr>
                              else irq_state_init),
        cpuif_iar := (\<lambda>cpu. 0),
        cpuif_rpr := (\<lambda>cpu. if cpu = 0 then 0 else 0x100),
        m_curr_irq := (\<lambda>cpu. if cpu = 0 then 0 else SPURIOUS_IRQ),
        m_prev_irq := (\<lambda>irq cpu. if irq = 0 \<and> cpu = 0 then 1 else SPURIOUS_IRQ)\<rparr>"

definition ooo_s9 :: gic400 where
  "ooo_s9 = ooo_s8\<lparr>m_prev_irq := (\<lambda>irq cpu. SPURIOUS_IRQ)\<rparr>"

text \<open>
  A controller with one CPU and 32 SPIs in which the hypervisor has enabled the virtual
  interface (HCR = 1) and opened the virtual priority mask, physical interrupt 42 is
  active for CPU 0, and two list registers of CPU 0 are in use: number 0 is pending
  with virtual id 7 and priority 5, number 2 is pending with virtual id 10 and
  priority 2.
\<close>

definition virt_busy :: gic400 where
  "virt_busy =
     (gic_reset 4 2 1 64)
       \<lparr>m_irq_state := (\<lambda>irq. if irq = 42 then irq_state_init\<lparr>enabled := 1, active := 1\<rparr>
                              else if irq < NSGI then irq_state_init\<lparr>enabled := 0xff\<rparr>
                              else irq_state_init),
        m_lr_state := (\<lambda>cpu i.
           if cpu = 0 \<and> i = 0
           then list_entry_init\<lparr>le_pending := True, le_prio := 5, le_virtual_id := 7\<rparr>
           else if cpu = 0 \<and> i = 2
           then list_entry_init\<lparr>le_pending := True, le_prio := 2, le_virtual_id := 10\<rparr>
           else list_entry_init),
        vifctrl_lr := (\<lambda>cpu i. if cpu = 0 \<and> i = 0 then 0x12800007
                                else if cpu = 0 \<and> i = 2 then 0x1100000A else 0),
        vifctrl_hcr := (\<lambda>_. 1),
        vcpuif_pmr := (\<lambda>_. 0xf8)\<rparr>"

section \<open>Facts about the bit helpers\<close>

lemma ctz_lowest:
  assumes "w \<noteq> 0"
  shows "ctz w < 32 \<and> bit w (ctz w) \<and> (\<forall>n<ctz w. \<not> bit w n)"
proof -
  let ?P = "\<lambda>n. \<not> bit w n"
  let ?xs = "[0..<32]"
  from assms obtain n where n: "bit w n" by (auto simp: bit_eq_iff)
  then have n32: "n < 32" by (auto dest: bit_imp_le_length)
  have lt: "length (takeWhile ?P ?xs) < length ?xs"
  proof (rule ccontr)
    assume "\<not> ?thesis"
    then have "length (takeWhile ?P ?xs) = length ?xs"
      using length_takeWhile_le [of ?P ?xs] by linarith
    then have "takeWhile ?P ?xs = ?xs"
      by (metis takeWhile_eq_take take_all order_refl)
    then have "\<forall>x\<in>set ?xs. ?P x" by (simp only: takeWhile_eq_all_conv)
    with n n32 show False by auto
  qed
  then have c32: "ctz w < 32" by (simp add: ctz_def)
  have "\<not> ?P (?xs ! length (takeWhile ?P ?xs))"
    using lt by (rule nth_length_takeWhile)
  then have b: "bit w (ctz w)" using c32 by (simp add: ctz_def)
  have "\<forall>n<ctz w. \<not> bit w n"
  proof (intro allI impI)
    fix m assume m: "m < ctz w"
    then have "takeWhile ?P ?xs ! m = ?xs ! m"
      by (simp add: ctz_def takeWhile_nth)
    moreover have "takeWhile ?P ?xs ! m \<in> set (takeWhile ?P ?xs)"
      using m by (simp add: ctz_def)
    ultimately have "?P (?xs ! m)" by (metis set_takeWhileD)
    then show "\<not> bit w m" using m c32 by simp
  qed
  with c32 b show ?thesis by blast
qed

lemma fls_highest:
  assumes "w \<noteq> 0"
  shows "\<exists>k<32. fls w = int k \<and> bit w k \<and> (\<forall>n>k. \<not> bit w n)"
proof -
  let ?P = "\<lambda>n. \<not> bit w n"
  let ?xs = "rev [0..<32]"
  from assms obtain n where n: "bit w n" by (auto simp: bit_eq_iff)
  then have n32: "n < 32" by (auto dest: bit_imp_le_length)
  have lt: "length (takeWhile ?P ?xs) < length ?xs"
  proof (rule ccontr)
    assume "\<not> ?thesis"
    then have "length (takeWhile ?P ?xs) = length ?xs"
      using length_takeWhile_le [of ?P ?xs] by linarith
    then have "takeWhile ?P ?xs = ?xs"
      by (metis takeWhile_eq_take take_all order_refl)
    then have "\<forall>x\<in>set ?xs. ?P x" by (simp only: takeWhile_eq_all_conv)
    with n n32 show False by auto
  qed
  then have c32: "clz w < 32" by (simp add: clz_def)
  define k where "k = 31 - clz w"
  have k: "k < 32" "fls w = int k" using c32 by (simp_all add: k_def fls_def)
  have nth: "\<And>j. j < 32 \<Longrightarrow> ?xs ! j = 31 - j"
    by (simp add: rev_nth)
  have "\<not> ?P (?xs ! length (takeWhile ?P ?xs))"
    using lt by (rule nth_length_takeWhile)
  then have b: "bit w k" using c32 nth [of "clz w"] by (simp add: clz_def k_def)
  have "\<forall>n>k. \<not> bit w n"
  proof (intro allI impI)
    fix m assume m: "k < m"
    show "\<not> bit w m"
    proof (cases "m < 32")
      case False
      then show ?thesis by (auto dest: bit_imp_le_length)
    next
      case True
      define j where "j = 31 - m"
      have j: "j < clz w" using m True c32 by (simp add: j_def k_def)
      then have "takeWhile ?P ?xs ! j = ?xs ! j"
        by (simp add: clz_def takeWhile_nth)
      moreover have "takeWhile ?P ?xs ! j \<in> set (takeWhile ?P ?xs)"
        using j by (simp add: clz_def)
      ultimately have "?P (?xs ! j)" by (metis set_takeWhileD)
      moreover have "?xs ! j = m" using nth [of j] True j c32 by (simp add: j_def)
      ultimately show ?thesis by simp
    qed
  qed
  with k b show ?thesis by blast
qed

text \<open>
  \<^verbatim>\<open>a & (a - 1)\<close> removes the lowest set bit of \<open>a\<close> and leaves every other bit.
\<close>

lemma and_minus_one_bits:
  fixes a :: u32
  assumes k: "bit a k" and low: "\<forall>n<k. \<not> bit a n"
  shows "bit (a AND (a - 1)) n \<longleftrightarrow> bit a n \<and> n \<noteq> k"
proof -
  define d where "d = k + 1"
  define h :: u32 where "h = push_bit d (drop_bit d a)"
  have hb: "bit h m \<longleftrightarrow> k < m \<and> bit a m" for m
  proof -
    have "bit h m \<longleftrightarrow> d \<le> m \<and> possible_bit TYPE(u32) m \<and> bit a (d + (m - d))"
      by (simp only: h_def bit_push_bit_iff bit_drop_bit_eq comp_apply)
    moreover have "d \<le> m \<Longrightarrow> d + (m - d) = m" by simp
    moreover have "bit a m \<Longrightarrow> possible_bit TYPE(u32) m" by (rule bit_imp_possible_bit)
    moreover have "d \<le> m \<longleftrightarrow> k < m" by (auto simp: d_def)
    ultimately show ?thesis by metis
  qed
  have a: "a = h + 2 ^ k"
  proof -
    have "a = h OR 2 ^ k"
    proof (rule bit_eqI)
      fix n assume "possible_bit TYPE(u32) n"
      then show "bit a n = bit (h OR 2 ^ k) n"
        using k low by (cases "n < k"; cases "n = k") (auto simp: bit_or_iff hb bit_exp_iff)
    qed
    also have "\<dots> = h + 2 ^ k"
      by (rule disjunctive_add [symmetric]) (auto simp: hb bit_exp_iff)
    finally show ?thesis .
  qed
  have "a - 1 = h + mask k"
    by (subst a) (simp add: mask_eq_exp_minus_1)
  also have "\<dots> = h OR mask k"
    by (rule disjunctive_add) (auto simp: hb bit_mask_iff)
  finally have m: "a - 1 = h OR mask k" .
  show ?thesis
    unfolding m using k low
    by (cases "n < k"; cases "n = k")
      (auto simp: bit_and_iff bit_or_iff hb bit_mask_iff)
qed

section \<open>What \<^verbatim>\<open>update\<close> leaves alone\<close>

lemma update_cpu_frame:
  "m_irq_state (update_cpu s v c) = m_irq_state s"
  "m_lr_state (update_cpu s v c) = m_lr_state s"
  "vifctrl_apr (update_cpu s v c) = vifctrl_apr s"
  "vcpuif_rpr (update_cpu s v c) = vcpuif_rpr s"
  "cpuif_rpr (update_cpu s v c) = cpuif_rpr s"
  "VIRT_MIN_BPR (update_cpu s v c) = VIRT_MIN_BPR s"
  "NLR (update_cpu s v c) = NLR s"
  "m_irq_num (update_cpu s v c) = m_irq_num s"
  "m_cpu_num (update_cpu s v c) = m_cpu_num s"
  "distif_spendsgir (update_cpu s v c) = distif_spendsgir s"
  "distif_cpendsgir (update_cpu s v c) = distif_cpendsgir s"
  "m_curr_irq (update_cpu s v c) = m_curr_irq s"
  "m_prev_irq (update_cpu s v c) = m_prev_irq s"
  "cpuif_iar (update_cpu s v c) = cpuif_iar s"
  "vcpuif_eoir (update_cpu s v c) = vcpuif_eoir s"
  by (simp_all add: update_cpu_def Let_def)

lemma update_fold_frame:
  "m_irq_state (fold (\<lambda>cpu s'. update_cpu s' v cpu) cs s) = m_irq_state s"
  "m_lr_state (fold (\<lambda>cpu s'. update_cpu s' v cpu) cs s) = m_lr_state s"
  "vifctrl_apr (fold (\<lambda>cpu s'. update_cpu s' v cpu) cs s) = vifctrl_apr s"
  "vcpuif_rpr (fold (\<lambda>cpu s'. update_cpu s' v cpu) cs s) = vcpuif_rpr s"
  "cpuif_rpr (fold (\<lambda>cpu s'. update_cpu s' v cpu) cs s) = cpuif_rpr s"
  "VIRT_MIN_BPR (fold (\<lambda>cpu s'. update_cpu s' v cpu) cs s) = VIRT_MIN_BPR s"
  "NLR (fold (\<lambda>cpu s'. update_cpu s' v cpu) cs s) = NLR s"
  "m_irq_num (fold (\<lambda>cpu s'. update_cpu s' v cpu) cs s) = m_irq_num s"
  "m_cpu_num (fold (\<lambda>cpu s'. update_cpu s' v cpu) cs s) = m_cpu_num s"
  "distif_spendsgir (fold (\<lambda>cpu s'. update_cpu s' v cpu) cs s) = distif_spendsgir s"
  "distif_cpendsgir (fold (\<lambda>cpu s'. update_cpu s' v cpu) cs s) = distif_cpendsgir s"
  "m_curr_irq (fold (\<lambda>cpu s'. update_cpu s' v cpu) cs s) = m_curr_irq s"
  "m_prev_irq (fold (\<lambda>cpu s'. update_cpu s' v cpu) cs s) = m_prev_irq s"
  "cpuif_iar (fold (\<lambda>cpu s'. update_cpu s' v cpu) cs s) = cpuif_iar s"
  "vcpuif_eoir (fold (\<lambda>cpu s'. update_cpu s' v cpu) cs s) = vcpuif_eoir s"
  by (induction cs arbitrary: s; simp add: update_cpu_frame)+

lemma update_frame:
  "m_irq_state (update s v) = m_irq_state s"
  "m_lr_state (update s v) = m_lr_state s"
  "vifctrl_apr (update s v) = vifctrl_apr s"
  "vcpuif_rpr (update s v) = vcpuif_rpr s"
  "cpuif_rpr (update s v) = cpuif_rpr s"
  "VIRT_MIN_BPR (update s v) = VIRT_MIN_BPR s"
  "NLR (update s v) = NLR s"
  "m_irq_num (update s v) = m_irq_num s"
  "m_cpu_num (update s v) = m_cpu_num s"
  "distif_spendsgir (update s v) = distif_spendsgir s"
  "distif_cpendsgir (update s v) = distif_cpendsgir s"
  "m_curr_irq (update s v) = m_curr_irq s"
  "m_prev_irq (update s v) = m_prev_irq s"
  "cpuif_iar (update s v) = cpuif_iar s"
  "vcpuif_eoir (update s v) = vcpuif_eoir s"
  by (simp_all add: update_def update_fold_frame)

section \<open>Message assembly\<close>

text \<open>
  C3, as the code has it: with \<open>iswr\<close> set the buffer goes to the end of the
  \<^verbatim>\<open>out\<close> list and \<^verbatim>\<open>length_out\<close> grows by the size (modulo \<open>2^32\<close>), with it clear the
  buffer goes to the end of the \<^verbatim>\<open>in\<close> list and \<^verbatim>\<open>length_in\<close> grows; the other list,
  the other counter, the status and the index stay as they were. This is the claim with
  the two directions exchanged.
\<close>

theorem append_direction:
  "append msg a sz True =
     msg\<lparr>out_bufs := out_bufs msg @ [\<lparr>addr = a, size = sz\<rparr>],
         length_out := length_out msg + sz\<rparr>
   \<and> in_bufs (append msg a sz True) = in_bufs msg
   \<and> length_in (append msg a sz True) = length_in msg
   \<and> append msg a sz False =
     msg\<lparr>in_bufs := in_bufs msg @ [\<lparr>addr = a, size = sz\<rparr>],
         length_in := length_in msg + sz\<rparr>
   \<and> out_bufs (append msg a sz False) = out_bufs msg
   \<and> length_out (append msg a sz False) = length_out msg"
  by (simp add: append_def)

text \<open>
  The claim as written fails: a write-flagged buffer appended to the empty message leaves
  the \<^verbatim>\<open>in\<close> list empty and \<^verbatim>\<open>length_in\<close> at 0.
\<close>

theorem append_write_not_in:
  "in_bufs (append empty_message 0x2000 32 True) = []
   \<and> length_in (append empty_message 0x2000 32 True) = 0
   \<and> out_bufs (append empty_message 0x2000 32 True) = [\<lparr>addr = 0x2000, size = 32\<rparr>]
   \<and> length_out (append empty_message 0x2000 32 True) = 32"
  by (simp add: append_def empty_message_def)

section \<open>Notification decision of the packed ring\<close>

text \<open>
  C8 says that the notification decision is total in the driver's event flags field,
  also for values outside ENABLE = 0, DISABLE = 1, DESC = 2, and that no queue operation
  aborts. The code does not do that: for an event structure whose flags field the driver
  has set to 3, \<^verbatim>\<open>should_notify\<close> returns no decision and raises the error report
  \<^verbatim>\<open>illegal virtio event flags\<close> instead, whereas every other malformed guest input has a
  code of \<^verbatim>\<open>virtio_status\<close> (\<^verbatim>\<open>ERR_INDIRECT\<close>, \<^verbatim>\<open>ERR_NODMI\<close>, \<^verbatim>\<open>ERR_CHAIN\<close>, \<^verbatim>\<open>ERR_DESC\<close>).
\<close>

theorem should_notify_illegal_flags_raise:
  "should_notify \<lparr>off_wrap = 0, flags = 3\<rparr> 0 = Inl (Report ''illegal virtio event flags'')"
  by (simp add: should_notify_def F_EVENT_ENABLE_def F_EVENT_DISABLE_def F_EVENT_DESC_def)

section \<open>Binary point registers\<close>

text \<open>
  C10: a write of \<open>v\<close> to BPR on CPU \<open>c\<close> leaves \<open>v AND 7\<close> in both \<^verbatim>\<open>BPR.bank(c)\<close> and
  \<^verbatim>\<open>ABPR.bank(c)\<close>, so the two hold the same value afterwards.
\<close>

theorem write_bpr_aliases_abpr:
  "cpuif_bpr (cpuif_write_bpr s c v) c = v AND 7
   \<and> cpuif_abpr (cpuif_write_bpr s c v) c = v AND 7
   \<and> cpuif_bpr (cpuif_write_bpr s c v) c = cpuif_abpr (cpuif_write_bpr s c v) c"
  by (simp add: cpuif_write_bpr_def Let_def)

section \<open>End of interrupt with an id out of range\<close>

text \<open>
  C9: when CPU \<open>c\<close> has a running interrupt and the id field (bits 9..0) of the value
  written to EOIR is at least the number of implemented interrupts, the write is
  ignored: the handler logs the warning and returns the state it was given, every
  field of it (\<^verbatim>\<open>curr_irq\<close>, \<^verbatim>\<open>prev_irq\<close>, RPR, the active and pending bits).
\<close>

theorem eoir_invalid_irq_ignored:
  assumes "m_curr_irq s c \<noteq> SPURIOUS_IRQ"
    and "m_irq_num s \<le> unat (val AND 0x3ff)"
  shows "cpuif_write_eoir s (int c) val = Some ([Warn ''(eoi) invalid irq ignored''], s)"
  using assms by (simp add: cpuif_write_eoir_def bank_of_def get_irq_num_def Let_def)

theorem eoir_invalid_irq_ignored_witness:
  "m_curr_irq running_example 0 \<noteq> SPURIOUS_IRQ
   \<and> m_irq_num running_example \<le> unat ((1000::u32) AND 0x3ff)
   \<and> cpuif_write_eoir running_example (int 0) 1000
       = Some ([Warn ''(eoi) invalid irq ignored''], running_example)"
proof -
  have h1: "m_curr_irq running_example 0 \<noteq> SPURIOUS_IRQ"
    by (simp add: running_example_def gic_reset_def SPURIOUS_IRQ_def)
  have h2: "m_irq_num running_example \<le> unat ((1000::u32) AND 0x3ff)"
    by (simp add: running_example_def gic_reset_def)
  show ?thesis using h1 h2 eoir_invalid_irq_ignored [OF h1 h2] by simp
qed

section \<open>Priority drop on the virtual end of interrupt\<close>

lemma veoir_apr:
  assumes "unat (val AND 0x1ff) < m_irq_num s"
  shows "vifctrl_apr (vcpuif_write_eoir s c val) c = vifctrl_apr s c AND (vifctrl_apr s c - 1)"
  using assms
  by (simp add: vcpuif_write_eoir_def Let_def get_irq_num_def update_frame
      set_lr_active_def upd_lr_def set_irq_active_def)

lemma veoir_rpr:
  assumes "unat (val AND 0x1ff) < m_irq_num s"
  shows "vcpuif_rpr (vcpuif_write_eoir s c val) c =
     (if vifctrl_apr s c AND (vifctrl_apr s c - 1) \<noteq> 0
      then push_bit (VIRT_MIN_BPR s + 1) (word_of_int (fls (vifctrl_apr s c AND (vifctrl_apr s c - 1))))
      else of_nat IDLE_PRIO)"
  using assms
  by (simp add: vcpuif_write_eoir_def Let_def get_irq_num_def update_frame
      set_lr_active_def upd_lr_def set_irq_active_def)

text \<open>
  C5, as the code has it: on a virtual EOIR write with an id in range the APR of the
  CPU becomes \<open>apr AND (apr - 1)\<close>, which clears its lowest set bit (the bit at
  \<open>ctz apr\<close>, the highest-priority active level) and keeps every other bit. The
  virtual RPR then is the index of the highest set bit that remains, shifted left by
  \<^verbatim>\<open>VIRT_MIN_BPR + 1\<close>, or \<^verbatim>\<open>IDLE_PRIO = 0x100\<close> when no bit remains.
\<close>

theorem veoir_drops_lowest_apr_bit:
  assumes "unat (val AND 0x1ff) < m_irq_num s"
  shows "vifctrl_apr (vcpuif_write_eoir s c val) c = vifctrl_apr s c AND (vifctrl_apr s c - 1)
    \<and> (vifctrl_apr s c \<noteq> 0 \<longrightarrow>
         (\<forall>n. bit (vifctrl_apr (vcpuif_write_eoir s c val) c) n \<longleftrightarrow>
                bit (vifctrl_apr s c) n \<and> n \<noteq> ctz (vifctrl_apr s c)))
    \<and> (vifctrl_apr (vcpuif_write_eoir s c val) c \<noteq> 0 \<longrightarrow>
         vcpuif_rpr (vcpuif_write_eoir s c val) c =
           push_bit (VIRT_MIN_BPR s + 1)
             (word_of_int (fls (vifctrl_apr (vcpuif_write_eoir s c val) c)))
         \<and> (\<exists>k<32. fls (vifctrl_apr (vcpuif_write_eoir s c val) c) = int k
                \<and> bit (vifctrl_apr (vcpuif_write_eoir s c val) c) k
                \<and> (\<forall>n>k. \<not> bit (vifctrl_apr (vcpuif_write_eoir s c val) c) n)))
    \<and> (vifctrl_apr (vcpuif_write_eoir s c val) c = 0 \<longrightarrow>
         vcpuif_rpr (vcpuif_write_eoir s c val) c = 0x100)"
proof -
  let ?a = "vifctrl_apr s c"
  let ?a' = "vifctrl_apr (vcpuif_write_eoir s c val) c"
  have apr: "?a' = ?a AND (?a - 1)" using assms by (rule veoir_apr)
  have low: "?a \<noteq> 0 \<longrightarrow> (\<forall>n. bit ?a' n \<longleftrightarrow> bit ?a n \<and> n \<noteq> ctz ?a)"
  proof
    assume "?a \<noteq> 0"
    then have "bit ?a (ctz ?a)" "\<forall>n<ctz ?a. \<not> bit ?a n"
      using ctz_lowest [of ?a] by blast+
    then show "\<forall>n. bit ?a' n \<longleftrightarrow> bit ?a n \<and> n \<noteq> ctz ?a"
      unfolding apr by (simp add: and_minus_one_bits)
  qed
  have rpr1: "?a' \<noteq> 0 \<longrightarrow> vcpuif_rpr (vcpuif_write_eoir s c val) c =
      push_bit (VIRT_MIN_BPR s + 1) (word_of_int (fls ?a'))"
    using veoir_rpr [OF assms, of c] by (simp add: apr)
  have rpr0: "?a' = 0 \<longrightarrow> vcpuif_rpr (vcpuif_write_eoir s c val) c = 0x100"
    using veoir_rpr [OF assms, of c] by (simp add: apr IDLE_PRIO_def)
  have hi: "?a' \<noteq> 0 \<longrightarrow> (\<exists>k<32. fls ?a' = int k \<and> bit ?a' k \<and> (\<forall>n>k. \<not> bit ?a' n))"
    using fls_highest [of ?a'] by blast
  from apr low rpr1 rpr0 hi show ?thesis by blast
qed

theorem veoir_drops_lowest_apr_bit_witness:
  "unat ((0::u32) AND 0x1ff) < m_irq_num apr_example
   \<and> vifctrl_apr (vcpuif_write_eoir apr_example 0 0) 0 = 4
   \<and> vcpuif_rpr (vcpuif_write_eoir apr_example 0 0) 0 = 16"
proof -
  have h: "unat ((0::u32) AND 0x1ff) < m_irq_num apr_example"
    by (simp add: apr_example_def gic_reset_def)
  have a: "vifctrl_apr apr_example 0 = 6" "VIRT_MIN_BPR apr_example = 2"
    by (simp_all add: apr_example_def gic_reset_def)
  have f: "fls 4 = 2" by (simp add: fls_def clz_def upt_rec)
  note t = veoir_drops_lowest_apr_bit [OF h, of 0]
  have a': "vifctrl_apr (vcpuif_write_eoir apr_example 0 0) 0 = 4"
    using t by (simp add: a)
  moreover have "vcpuif_rpr (vcpuif_write_eoir apr_example 0 0) 0 = 16"
    using t by (simp add: a a' f)
  ultimately show ?thesis using h by simp
qed

text \<open>
  The claim as written fails: with the levels 1 and 2 active (APR = 6) the write leaves
  APR = 4. The highest set bit, bit 2, is still set; bit 1 is the one cleared.
\<close>

theorem veoir_keeps_highest_apr_bit:
  "vifctrl_apr apr_example 0 = 6
   \<and> vifctrl_apr (vcpuif_write_eoir apr_example 0 0) 0 = 4"
  by (simp add: apr_example_def vcpuif_write_eoir_def gic_reset_def Let_def get_irq_num_def
      update_frame set_lr_active_def upd_lr_def set_irq_active_def)

section \<open>Writes to the SPI set-pending registers\<close>

lemma ucast_u8_u32_u8: "(ucast (ucast (x::u8) :: u32) :: u8) = x"
  by (rule bit_word_eqI) (auto simp: bit_ucast_iff)

lemma write_sspr_bit_itargets:
  "distif_itargets_spi (write_sspr_bit val irq i s) = distif_itargets_spi s"
  by (simp add: write_sspr_bit_def set_irq_pending_def)

lemma write_sspr_bit_pending:
  "pending (m_irq_state (write_sspr_bit val irq j s) (irq + i)) =
     (if j = i \<and> val AND push_bit i 1 \<noteq> 0
      then pending (m_irq_state s (irq + i)) OR distif_itargets_spi s i
      else pending (m_irq_state s (irq + i)))"
  by (simp add: write_sspr_bit_def set_irq_pending_def ucast_u8_u32_u8)

lemma fold_sspr_pending:
  "pending (m_irq_state (fold (write_sspr_bit val irq) js s) (irq + i)) =
     (if i \<in> set js \<and> val AND push_bit i 1 \<noteq> 0
      then pending (m_irq_state s (irq + i)) OR distif_itargets_spi s i
      else pending (m_irq_state s (irq + i)))"
proof (induction js arbitrary: s)
  case Nil
  then show ?case by simp
next
  case (Cons j js)
  show ?case
    by (simp add: Cons.IH write_sspr_bit_pending write_sspr_bit_itargets or.assoc)
qed

text \<open>
  What the handler does for every bank: bit \<open>i\<close> of the value ors entry \<open>i\<close> of the
  target table into the pending mask of SPI \<open>32 + 32 * idx + i\<close>, whatever \<open>idx\<close> is.
\<close>

lemma write_sspr_pending:
  assumes "i < 32"
  shows "pending (m_irq_state (write_sspr s val idx) (NPRIV + idx * 32 + i)) =
     (if bit val i
      then pending (m_irq_state s (NPRIV + idx * 32 + i)) OR distif_itargets_spi s i
      else pending (m_irq_state s (NPRIV + idx * 32 + i)))"
proof -
  have "val AND push_bit i 1 \<noteq> 0 \<longleftrightarrow> bit val i"
    by (simp add: and_exp_eq_0_iff_not_bit)
  then show ?thesis
    using assms by (simp add: write_sspr_def Let_def update_frame fold_sspr_pending)
qed

text \<open>
  C6 says that a set bit \<open>i\<close> in a write to bank \<open>idx\<close> makes SPI \<open>32 + 32 * idx + i\<close>
  pending for the CPUs of that interrupt's own entry of the target table. The code
  takes entry \<open>i\<close> for every bank: writing 1 to bank 1 makes SPI 64, whose own entry
  (number 32) routes it to CPU 1, pending for CPU 0, the target of SPI 32.
\<close>

theorem write_sspr_wrong_target:
  "distif_itargets_spi sspr_example 32 = 2
   \<and> pending (m_irq_state sspr_example 64) = 0
   \<and> pending (m_irq_state (write_sspr sspr_example 1 1) 64) = 1"
  using write_sspr_pending [of 0 sspr_example 1 1]
  by (simp add: sspr_example_def NPRIV_def NSGI_def NPPI_def gic_reset_def irq_state_init_def)

section \<open>Acknowledge on the CPU interface\<close>

lemma read_iar_spurious:
  assumes "unat (cpuif_hppir s c) = SPURIOUS_IRQ \<or>
           unat (cpuif_rpr s c) \<le> unat (get_irq_priority s c (unat (cpuif_hppir s c)))"
  shows "cpuif_read_iar s (int c) = Inr (of_nat SPURIOUS_IRQ, s)"
  using assms by (auto simp add: cpuif_read_iar_def bank_of_def Let_def)


lemma sgi_source:
  fixes sp :: u8
  assumes "sp \<noteq> 0"
  shows "ctz (ucast sp) < 8 \<and> bit sp (ctz (ucast sp)) \<and> (\<forall>j<ctz (ucast sp). \<not> bit sp j)"
proof -
  from assms obtain n where n: "bit sp n" by (auto simp: bit_eq_iff)
  then have "n < 8" by (auto dest: bit_imp_le_length)
  with n have "bit (ucast sp :: u32) n" by (simp add: bit_ucast_iff)
  then have nz: "(ucast sp :: u32) \<noteq> 0" by auto
  note c = ctz_lowest [OF nz]
  from c have b: "bit sp (ctz (ucast sp))" by (simp add: bit_ucast_iff)
  then have "ctz (ucast sp) < 8" by (auto dest: bit_imp_le_length)
  moreover have "\<forall>j<ctz (ucast sp). \<not> bit sp j"
  proof (intro allI impI)
    fix j assume "j < ctz (ucast sp :: u32)"
    with c have "\<not> bit (ucast sp :: u32) j" by blast
    moreover have "j < 32" using c \<open>j < ctz (ucast sp :: u32)\<close> by linarith
    ultimately show "\<not> bit sp j" by (simp add: bit_ucast_iff)
  qed
  ultimately show ?thesis using b by blast
qed

lemma ucast_bit_u8: "(ucast (push_bit n (1::u32)) :: u8) = push_bit n 1"
  by (rule bit_word_eqI) (auto simp: bit_ucast_iff bit_push_bit_iff bit_exp_iff)

lemma ucast_exp_u8: "(ucast (2 ^ n :: u32) :: u8) = 2 ^ n"
  using ucast_bit_u8 [of n] by simp

lemma ucast_all_cpu: "(ucast ALL_CPU :: u8) = - 1"
  by (simp add: ALL_CPU_def)

lemma clear_cpu_bit:
  assumes "c < 8" "m = ALL_CPU \<or> m = cpu_bit c"
  shows "\<not> bit ((p::u8) AND NOT (ucast m)) c"
proof -
  from assms(2) show ?thesis
  proof
    assume "m = ALL_CPU"
    then show ?thesis by (simp add: ucast_all_cpu)
  next
    assume "m = cpu_bit c"
    then show ?thesis using assms(1)
      by (simp add: cpu_bit_def ucast_exp_u8 bit_and_iff bit_not_iff bit_exp_iff)
  qed
qed

lemma of_nat_and_7:
  assumes "n < 8"
  shows "(of_nat n :: u32) AND 7 = of_nat n"
proof -
  have "(7::u32) = mask 3" by (simp add: mask_eq_exp_minus_1)
  then have "(of_nat n :: u32) AND 7 = take_bit 3 (of_nat n)"
    by (simp add: take_bit_eq_mask)
  also have "\<dots> = of_nat (take_bit 3 n)" by (simp add: take_bit_of_nat)
  also have "take_bit 3 n = n" using assms by (simp add: take_bit_nat_eq_self)
  finally show ?thesis .
qed

lemma set_sgi_pending_frame:
  "m_irq_state (set_sgi_pending s v sgi cpu st) = m_irq_state s"
  "cpuif_hppir (set_sgi_pending s v sgi cpu st) = cpuif_hppir s"
  by (simp_all add: set_sgi_pending_def)

lemma set_current_irq_frame:
  "m_irq_state (set_current_irq s cpu irq) = m_irq_state s"
  "distif_spendsgir (set_current_irq s cpu irq) = distif_spendsgir s"
  "cpuif_iar (set_current_irq s cpu irq) = cpuif_iar s"
  by (simp_all add: set_current_irq_def Let_def update_frame)

lemma read_iar_sgi:
  assumes ns: "unat (cpuif_hppir s c) \<noteq> SPURIOUS_IRQ"
    and pr: "unat (get_irq_priority s c (unat (cpuif_hppir s c))) < unat (cpuif_rpr s c)"
    and sgi: "unat (cpuif_hppir s c) < NSGI"
    and nz: "distif_spendsgir s c (unat (cpuif_hppir s c)) \<noteq> 0"
    and c8: "c < NCPU"
  shows "\<exists>s'. cpuif_read_iar s (int c) =
           Inr (push_bit 10 (of_nat (ctz (ucast (distif_spendsgir s c (unat (cpuif_hppir s c))))))
                  OR cpuif_hppir s c, s')
         \<and> distif_spendsgir s' c (unat (cpuif_hppir s c)) =
             distif_spendsgir s c (unat (cpuif_hppir s c)) AND
               NOT (push_bit (ctz (ucast (distif_spendsgir s c (unat (cpuif_hppir s c))))) 1)
         \<and> (if distif_spendsgir s' c (unat (cpuif_hppir s c)) = 0
             then \<not> bit (pending (m_irq_state s' (unat (cpuif_hppir s c)))) c
             else pending (m_irq_state s' (unat (cpuif_hppir s c))) =
                  pending (m_irq_state s (unat (cpuif_hppir s c))))"
proof -
  let ?irq = "unat (cpuif_hppir s c)"
  let ?sp = "distif_spendsgir s c ?irq"
  let ?src = "ctz (ucast ?sp)"
  have src: "?src < 8" using sgi_source [OF nz] by blast
  then have src7: "(of_nat ?src :: u32) AND 7 = of_nat ?src"
    by (rule of_nat_and_7)
  have m: "(if get_irq_model s ?irq = N_1 then ALL_CPU else cpu_bit c) = ALL_CPU \<or>
           (if get_irq_model s ?irq = N_1 then ALL_CPU else cpu_bit c) = cpu_bit c"
    by simp
  show ?thesis
    using ns pr sgi src c8 clear_cpu_bit [OF _ m, of "pending (m_irq_state s ?irq)"]
    by (simp add: cpuif_read_iar_def bank_of_def Let_def src7 set_current_irq_frame
        set_irq_active_def set_irq_signaled_def set_irq_pending_def set_sgi_pending_def
        ucast_bit_u8 ucast_exp_u8 NCPU_def get_irq_model_def)
qed

text \<open>
  C2: a read of IAR by CPU \<open>c\<close> returns \<^verbatim>\<open>SPURIOUS\<close> (and changes nothing) when
  \<^verbatim>\<open>HPPIR.bank(c)\<close> is \<^verbatim>\<open>SPURIOUS\<close> or its priority is not lower than
  \<^verbatim>\<open>RPR.bank(c)\<close>. Otherwise, when the winner is an SGI whose source mask
  \<^verbatim>\<open>spendsgir[c][s]\<close> is not zero, the value returned is the SGI number with the
  lowest-numbered pending source CPU in bits 10-12, the bit of that source is cleared
  from the mask, and the pending bit of the SGI for \<open>c\<close> is cleared when no source
  remains and left as it was when one does.
\<close>

theorem read_iar_acknowledge:
  assumes "c < NCPU"
  shows "(unat (cpuif_hppir s c) = SPURIOUS_IRQ \<or>
          unat (cpuif_rpr s c) \<le> unat (get_irq_priority s c (unat (cpuif_hppir s c)))
          \<longrightarrow> cpuif_read_iar s (int c) = Inr (of_nat SPURIOUS_IRQ, s))
    \<and> (unat (cpuif_hppir s c) \<noteq> SPURIOUS_IRQ \<and>
        unat (get_irq_priority s c (unat (cpuif_hppir s c))) < unat (cpuif_rpr s c) \<and>
        unat (cpuif_hppir s c) < NSGI \<and>
        distif_spendsgir s c (unat (cpuif_hppir s c)) \<noteq> 0
        \<longrightarrow> (\<exists>src s'.
              src < 8 \<and> bit (distif_spendsgir s c (unat (cpuif_hppir s c))) src \<and>
              (\<forall>j < src. \<not> bit (distif_spendsgir s c (unat (cpuif_hppir s c))) j) \<and>
              cpuif_read_iar s (int c) = Inr (push_bit 10 (of_nat src) OR cpuif_hppir s c, s') \<and>
              distif_spendsgir s' c (unat (cpuif_hppir s c)) =
                distif_spendsgir s c (unat (cpuif_hppir s c)) AND NOT (push_bit src 1) \<and>
              (if distif_spendsgir s' c (unat (cpuif_hppir s c)) = 0
               then \<not> bit (pending (m_irq_state s' (unat (cpuif_hppir s c)))) c
               else pending (m_irq_state s' (unat (cpuif_hppir s c))) =
                    pending (m_irq_state s (unat (cpuif_hppir s c))))))"
proof (intro conjI impI)
  assume "unat (cpuif_hppir s c) = SPURIOUS_IRQ \<or>
          unat (cpuif_rpr s c) \<le> unat (get_irq_priority s c (unat (cpuif_hppir s c)))"
  then show "cpuif_read_iar s (int c) = Inr (of_nat SPURIOUS_IRQ, s)"
    by (rule read_iar_spurious)
next
  let ?irq = "unat (cpuif_hppir s c)"
  assume a: "?irq \<noteq> SPURIOUS_IRQ \<and>
        unat (get_irq_priority s c ?irq) < unat (cpuif_rpr s c) \<and>
        ?irq < NSGI \<and> distif_spendsgir s c ?irq \<noteq> 0"
  then have nz: "distif_spendsgir s c ?irq \<noteq> 0" by blast
  from a assms obtain s' where s':
    "cpuif_read_iar s (int c) =
       Inr (push_bit 10 (of_nat (ctz (ucast (distif_spendsgir s c ?irq)))) OR cpuif_hppir s c, s')"
    "distif_spendsgir s' c ?irq =
       distif_spendsgir s c ?irq AND NOT (push_bit (ctz (ucast (distif_spendsgir s c ?irq))) 1)"
    "if distif_spendsgir s' c ?irq = 0
     then \<not> bit (pending (m_irq_state s' ?irq)) c
     else pending (m_irq_state s' ?irq) = pending (m_irq_state s ?irq)"
    using read_iar_sgi [of s c] by blast
  with sgi_source [OF nz]
  show "\<exists>src s'.
          src < 8 \<and> bit (distif_spendsgir s c ?irq) src \<and>
          (\<forall>j < src. \<not> bit (distif_spendsgir s c ?irq) j) \<and>
          cpuif_read_iar s (int c) = Inr (push_bit 10 (of_nat src) OR cpuif_hppir s c, s') \<and>
          distif_spendsgir s' c ?irq = distif_spendsgir s c ?irq AND NOT (push_bit src 1) \<and>
          (if distif_spendsgir s' c ?irq = 0
           then \<not> bit (pending (m_irq_state s' ?irq)) c
           else pending (m_irq_state s' ?irq) = pending (m_irq_state s ?irq))"
    by blast
qed

theorem read_iar_acknowledge_witness:
  "cpuif_read_iar sgi_example (int 0) = Inr (1023, sgi_example)
   \<and> (\<exists>s'. cpuif_read_iar sgi_example (int 1) = Inr (3, s')
          \<and> distif_spendsgir s' 1 3 = 4 \<and> pending (m_irq_state s' 3) = 2)"
proof -
  have c0: "(0::nat) < NCPU" and c1: "(1::nat) < NCPU" by (simp_all add: NCPU_def)
  have h0: "unat (cpuif_hppir sgi_example 0) = SPURIOUS_IRQ"
    by (simp add: sgi_example_def SPURIOUS_IRQ_def)
  have a: "cpuif_read_iar sgi_example (int 0) = Inr (1023, sgi_example)"
    using read_iar_acknowledge [OF c0, of sgi_example] h0 by (simp add: SPURIOUS_IRQ_def)
  have irq: "unat (cpuif_hppir sgi_example 1) = 3" and hp: "cpuif_hppir sgi_example 1 = 3"
    by (simp_all add: sgi_example_def)
  have sp: "distif_spendsgir sgi_example 1 3 = 5"
    and pe: "pending (m_irq_state sgi_example 3) = 2"
    and pr: "unat (get_irq_priority sgi_example 1 3) < unat (cpuif_rpr sgi_example 1)"
    by (simp_all add: sgi_example_def gic_reset_def get_irq_priority_def NSGI_def IDLE_PRIO_def)
  have u3: "unat (3::u32) = 3" by simp
  have pre: "unat (cpuif_hppir sgi_example 1) \<noteq> SPURIOUS_IRQ \<and>
        unat (get_irq_priority sgi_example 1 (unat (cpuif_hppir sgi_example 1)))
          < unat (cpuif_rpr sgi_example 1) \<and>
        unat (cpuif_hppir sgi_example 1) < NSGI \<and>
        distif_spendsgir sgi_example 1 (unat (cpuif_hppir sgi_example 1)) \<noteq> 0"
    unfolding irq sp using pr by (simp add: SPURIOUS_IRQ_def NSGI_def)
  from read_iar_acknowledge [OF c1, of sgi_example, THEN conjunct2, THEN mp, OF pre]
  obtain src s' where s:
    "bit (5::u8) src" "\<forall>j < src. \<not> bit (5::u8) j"
    "cpuif_read_iar sgi_example (int 1) = Inr (push_bit 10 (of_nat src) OR 3, s')"
    "distif_spendsgir s' 1 3 = 5 AND NOT (push_bit src 1)"
    "if distif_spendsgir s' 1 3 = 0 then \<not> bit (pending (m_irq_state s' 3)) 1
     else pending (m_irq_state s' 3) = 2"
    unfolding hp u3 sp pe by blast
  have "bit (5::u8) 0" by simp
  with s(2) have "src = 0" by (cases "src = 0") auto
  with s have "cpuif_read_iar sgi_example (int 1) = Inr (3, s')"
    "distif_spendsgir s' 1 3 = 4" "pending (m_irq_state s' 3) = 2"
    by simp_all
  with a show ?thesis by blast
qed

section \<open>Arbitration\<close>

lemma check_hppir_irrelevant:
  "check_sgi (s\<lparr>cpuif_hppir := h\<rparr>) c = check_sgi s c"
  "check_ppi (s\<lparr>cpuif_hppir := h\<rparr>) c = check_ppi s c"
  "check_spi (s\<lparr>cpuif_hppir := h\<rparr>) c = check_spi s c"
  "check_sgi (s\<lparr>irq_out := ou\<rparr>) c = check_sgi s c"
  "check_ppi (s\<lparr>irq_out := ou\<rparr>) c = check_ppi s c"
  "check_spi (s\<lparr>irq_out := ou\<rparr>) c = check_spi s c"
  by (simp_all add: fun_eq_iff check_sgi_def check_ppi_def check_spi_def is_irq_enabled_def
      test_pending_def is_irq_pending_def is_irq_active_def get_irq_trigger_def
      get_irq_level_def irq_signaled_def Let_def)

lemma update_cpu_phys:
  "update_cpu s False c =
     s\<lparr>cpuif_hppir := (cpuif_hppir s)
          (c := if distif_ctlr s = 0 \<or> cpuif_ctlr s c = 0 then of_nat SPURIOUS_IRQ
                else if snd (scan_phys s c) < unat (cpuif_pmr s c)
                     then of_nat (fst (scan_phys s c)) else of_nat SPURIOUS_IRQ),
       irq_out := (irq_out s)
          (c := \<not> (distif_ctlr s = 0 \<or> cpuif_ctlr s c = 0) \<and>
                snd (scan_phys s c) < unat (cpuif_pmr s c) \<and>
                snd (scan_phys s c) < unat (cpuif_rpr s c))\<rparr>"
  by (simp add: update_cpu_def Let_def scan_phys_def check_hppir_irrelevant)

lemma scan_phys_irrelevant:
  "scan_phys (s\<lparr>cpuif_hppir := h, irq_out := ou\<rparr>) c = scan_phys s c"
  by (simp add: scan_phys_def check_hppir_irrelevant)

lemma update_fold_phys:
  "fold (\<lambda>cpu s'. update_cpu s' False cpu) cs (s\<lparr>cpuif_hppir := h, irq_out := ou\<rparr>) =
     s\<lparr>cpuif_hppir := (\<lambda>c. if c \<in> set cs then cpuif_hppir (update_cpu s False c) c else h c),
       irq_out := (\<lambda>c. if c \<in> set cs then irq_out (update_cpu s False c) c else ou c)\<rparr>"
proof (induction cs arbitrary: h ou)
  case Nil
  then show ?case by simp
next
  case (Cons x xs)
  have step: "update_cpu (s\<lparr>cpuif_hppir := h, irq_out := ou\<rparr>) False x =
      s\<lparr>cpuif_hppir := h(x := cpuif_hppir (update_cpu s False x) x),
        irq_out := ou(x := irq_out (update_cpu s False x) x)\<rparr>"
    by (simp add: update_cpu_phys scan_phys_irrelevant)
  show ?case
    unfolding fold_simps step Cons.IH
    by (rule gic400.equality; auto simp: fun_eq_iff)
qed

lemma update_phys_bank:
  assumes "c < m_cpu_num s"
  shows "cpuif_hppir (update s False) c = cpuif_hppir (update_cpu s False c) c"
    and "irq_out (update s False) c = irq_out (update_cpu s False c) c"
proof -
  have "s = s\<lparr>cpuif_hppir := cpuif_hppir s, irq_out := irq_out s\<rparr>" by simp
  then have "update s False =
     fold (\<lambda>cpu s'. update_cpu s' False cpu) [0..<m_cpu_num s]
       (s\<lparr>cpuif_hppir := cpuif_hppir s, irq_out := irq_out s\<rparr>)"
    by (simp add: update_def)
  then show "cpuif_hppir (update s False) c = cpuif_hppir (update_cpu s False c) c"
    and "irq_out (update s False) c = irq_out (update_cpu s False c) c"
    using assms by (simp_all only: update_fold_phys) simp_all
qed

lemma target_bit: "ucast (t::u8) AND cpu_bit c \<noteq> (0::u32) \<longleftrightarrow> bit t c"
proof -
  have "ucast t AND cpu_bit c \<noteq> (0::u32) \<longleftrightarrow> bit (ucast t :: u32) c"
    by (simp add: cpu_bit_def and_exp_eq_0_iff_not_bit)
  also have "\<dots> \<longleftrightarrow> bit t c"
    by (auto simp: bit_ucast_iff dest: bit_imp_le_length)
  finally show ?thesis .
qed

lemma check_as_pick:
  "irq < NSGI \<Longrightarrow>
     check_sgi s c irq best = pick (spec_candidate s c) (\<lambda>i. unat (get_irq_priority s c i)) irq best"
  "NSGI \<le> irq \<Longrightarrow> irq < NPRIV \<Longrightarrow>
     check_ppi s c irq best = pick (spec_candidate s c) (\<lambda>i. unat (get_irq_priority s c i)) irq best"
  "NPRIV \<le> irq \<Longrightarrow> irq < NIRQ \<Longrightarrow>
     check_spi s c irq best = pick (spec_candidate s c) (\<lambda>i. unat (get_irq_priority s c i)) irq best"
  by (auto simp: check_sgi_def check_ppi_def check_spi_def pick_def spec_candidate_def
      get_irq_priority_def target_bit Let_def NPRIV_def NSGI_def NPPI_def)

lemma scan_phys_pick:
  assumes "NPRIV \<le> m_irq_num s" "m_irq_num s \<le> NIRQ"
  shows "scan_phys s c =
     fold (pick (spec_candidate s c) (\<lambda>i. unat (get_irq_priority s c i))) [0..<m_irq_num s]
       (SPURIOUS_IRQ, IDLE_PRIO)"
proof -
  let ?p = "pick (spec_candidate s c) (\<lambda>i. unat (get_irq_priority s c i))"
  have a: "fold (check_sgi s c) [0..<NSGI] b = fold ?p [0..<NSGI] b" for b
    by (rule fold_cong) (auto simp: check_as_pick fun_eq_iff)
  have b: "fold (check_ppi s c) [NSGI..<NPRIV] b = fold ?p [NSGI..<NPRIV] b" for b
    by (rule fold_cong) (auto simp: check_as_pick fun_eq_iff)
  have c: "fold (check_spi s c) [NPRIV..<m_irq_num s] b = fold ?p [NPRIV..<m_irq_num s] b" for b
    using assms by (intro fold_cong) (auto simp: check_as_pick fun_eq_iff)
  have "[0..<m_irq_num s] = [0..<NSGI] @ [NSGI..<NPRIV] @ [NPRIV..<m_irq_num s]"
    using assms upt_add_eq_append [of 0 NSGI "m_irq_num s - NSGI"]
      upt_add_eq_append [of NSGI NPRIV "m_irq_num s - NPRIV"]
    by (simp add: NPRIV_def NSGI_def NPPI_def)
  then show ?thesis
    by (simp add: scan_phys_def a b c)
qed

lemma pick_fold:
  assumes "\<And>j. prio j < p0"
  shows "(if \<exists>j<n. cand j
          then fst (fold (pick cand prio) [0..<n] (i0, p0)) < n \<and>
               cand (fst (fold (pick cand prio) [0..<n] (i0, p0))) \<and>
               snd (fold (pick cand prio) [0..<n] (i0, p0)) =
                 prio (fst (fold (pick cand prio) [0..<n] (i0, p0))) \<and>
               (\<forall>j<n. cand j \<longrightarrow>
                  prio (fst (fold (pick cand prio) [0..<n] (i0, p0))) < prio j \<or>
                  (prio (fst (fold (pick cand prio) [0..<n] (i0, p0))) = prio j \<and>
                   fst (fold (pick cand prio) [0..<n] (i0, p0)) \<le> j))
          else fold (pick cand prio) [0..<n] (i0, p0) = (i0, p0))"
proof (induction n)
  case 0
  then show ?case by simp
next
  case (Suc n)
  let ?b = "fold (pick cand prio) [0..<n] (i0, p0)"
  have f: "fold (pick cand prio) [0..<Suc n] (i0, p0) = pick cand prio n ?b" by simp
  show ?case
  proof (cases "\<exists>j<n. cand j")
    case True
    with Suc.IH have ih: "fst ?b < n" "cand (fst ?b)" "snd ?b = prio (fst ?b)"
      "\<forall>j<n. cand j \<longrightarrow> prio (fst ?b) < prio j \<or> (prio (fst ?b) = prio j \<and> fst ?b \<le> j)"
      by simp_all
    from True have ex: "\<exists>j<Suc n. cand j" using less_Suc_eq by blast
    show ?thesis
    proof (cases "cand n \<and> prio n < snd ?b")
      case True
      then have p: "pick cand prio n ?b = (n, prio n)" by (simp add: pick_def)
      have "\<forall>j<Suc n. cand j \<longrightarrow> prio n < prio j \<or> (prio n = prio j \<and> n \<le> j)"
      proof (intro allI impI)
        fix j assume j: "j < Suc n" "cand j"
        show "prio n < prio j \<or> (prio n = prio j \<and> n \<le> j)"
        proof (cases "j = n")
          case True
          then show ?thesis by simp
        next
          case False
          with j have "j < n" by simp
          with ih(4) j(2) have "prio (fst ?b) \<le> prio j" by fastforce
          moreover have "prio n < prio (fst ?b)" using True ih(3) by simp
          ultimately show ?thesis by simp
        qed
      qed
      with ex True show ?thesis unfolding f p by simp
    next
      case False
      then have p: "pick cand prio n ?b = ?b" by (auto simp: pick_def)
      have "\<forall>j<Suc n. cand j \<longrightarrow> prio (fst ?b) < prio j \<or> (prio (fst ?b) = prio j \<and> fst ?b \<le> j)"
      proof (intro allI impI)
        fix j assume j: "j < Suc n" "cand j"
        show "prio (fst ?b) < prio j \<or> (prio (fst ?b) = prio j \<and> fst ?b \<le> j)"
        proof (cases "j = n")
          case True
          with j False have "\<not> prio n < prio (fst ?b)" using ih(3) by simp
          with True ih(1) show ?thesis by auto
        next
          case False
          with j have "j < n" by simp
          with ih(4) j(2) show ?thesis by blast
        qed
      qed
      with ex ih show ?thesis unfolding f p by (simp add: less_Suc_eq)
    qed
  next
    case False
    with Suc.IH have ih: "?b = (i0, p0)" by simp
    show ?thesis
    proof (cases "cand n")
      case True
      then have p: "pick cand prio n ?b = (n, prio n)" using assms [of n] by (simp add: pick_def ih)
      have ex: "\<exists>j<Suc n. cand j" using True by blast
      have "\<forall>j<Suc n. cand j \<longrightarrow> j = n"
        using \<open>\<not> (\<exists>j<n. cand j)\<close> less_Suc_eq by blast
      then have "\<forall>j<Suc n. cand j \<longrightarrow> prio n < prio j \<or> (prio n = prio j \<and> n \<le> j)"
        by blast
      with ex True show ?thesis unfolding f p by simp
    next
      case False
      then have p: "pick cand prio n ?b = (i0, p0)" by (simp add: pick_def ih)
      have "\<not> (\<exists>j<Suc n. cand j)"
        using False \<open>\<not> (\<exists>j<n. cand j)\<close> less_Suc_eq by blast
      then show ?thesis unfolding f p by auto
    qed
  qed
qed

lemma prio_below_idle: "unat (get_irq_priority s c j) < IDLE_PRIO"
proof -
  have "unat (get_irq_priority s c j) < 2 ^ 8"
    using unsigned_less [of "get_irq_priority s c j"] by simp
  then show ?thesis by (simp add: IDLE_PRIO_def)
qed

lemma scan_phys_result:
  assumes "NPRIV \<le> m_irq_num s" "m_irq_num s \<le> NIRQ"
  shows "(if \<exists>j<m_irq_num s. spec_candidate s c j
          then spec_best s c (fst (scan_phys s c)) \<and>
               snd (scan_phys s c) = unat (get_irq_priority s c (fst (scan_phys s c)))
          else scan_phys s c = (SPURIOUS_IRQ, IDLE_PRIO))"
proof -
  let ?prio = "\<lambda>i. unat (get_irq_priority s c i)"
  note pf = pick_fold [of ?prio IDLE_PRIO "m_irq_num s" "spec_candidate s c" SPURIOUS_IRQ,
      OF prio_below_idle, folded scan_phys_pick [OF assms]]
  show ?thesis
  proof (cases "\<exists>j<m_irq_num s. spec_candidate s c j")
    case True
    with pf have b: "fst (scan_phys s c) < m_irq_num s" "spec_candidate s c (fst (scan_phys s c))"
      "snd (scan_phys s c) = ?prio (fst (scan_phys s c))"
      "\<forall>j<m_irq_num s. spec_candidate s c j \<longrightarrow>
         ?prio (fst (scan_phys s c)) < ?prio j \<or>
         (?prio (fst (scan_phys s c)) = ?prio j \<and> fst (scan_phys s c) \<le> j)"
      by simp_all
    from b(1,2,4) have "spec_best s c (fst (scan_phys s c))"
      by (auto simp: spec_best_def)
    with b(3) True show ?thesis by simp
  next
    case False
    with pf have "scan_phys s c = (SPURIOUS_IRQ, IDLE_PRIO)" by simp
    with False show ?thesis by auto
  qed
qed

lemma spec_best_unique:
  assumes "spec_best s c w" "spec_best s c b"
  shows "w = b"
proof -
  from assms have w: "w < m_irq_num s" "spec_candidate s c w"
    and b: "b < m_irq_num s" "spec_candidate s c b"
    by (simp_all add: spec_best_def)
  from assms(1) b have 1: "unat (get_irq_priority s c w) < unat (get_irq_priority s c b) \<or>
      (unat (get_irq_priority s c w) = unat (get_irq_priority s c b) \<and> w \<le> b)"
    by (simp add: spec_best_def)
  from assms(2) w have 2: "unat (get_irq_priority s c b) < unat (get_irq_priority s c w) \<or>
      (unat (get_irq_priority s c b) = unat (get_irq_priority s c w) \<and> b \<le> w)"
    by (simp add: spec_best_def)
  from 1 2 show ?thesis by auto
qed

text \<open>
  C1, as the code has it. After a non-virtual \<^verbatim>\<open>update\<close>, for every connected CPU \<open>c\<close>:
  when the distributor or the CPU interface of \<open>c\<close> is disabled, \<^verbatim>\<open>HPPIR.bank(c)\<close> is
  \<^verbatim>\<open>SPURIOUS\<close> and the output line is low. Otherwise, with \<open>w\<close> the best candidate
  (enabled, pending, not active, an SPI targeted at \<open>c\<close>; lowest priority value, lowest
  id among equals), \<^verbatim>\<open>HPPIR.bank(c)\<close> is \<open>w\<close> when its priority is below
  \<^verbatim>\<open>PMR.bank(c)\<close> and \<^verbatim>\<open>SPURIOUS\<close> when it is not, and the line is asserted iff the
  priority is below both \<^verbatim>\<open>PMR.bank(c)\<close> and \<^verbatim>\<open>RPR.bank(c)\<close>; with no candidate
  \<^verbatim>\<open>HPPIR.bank(c)\<close> is \<^verbatim>\<open>SPURIOUS\<close> and \<^verbatim>\<open>IDLE_PRIO\<close> takes the place of the
  priority. A best candidate exists whenever there is a candidate.
\<close>

theorem update_reports_best:
  assumes "c < m_cpu_num s" "NPRIV \<le> m_irq_num s" "m_irq_num s \<le> NIRQ"
  shows "(distif_ctlr s = 0 \<or> cpuif_ctlr s c = 0 \<longrightarrow>
            cpuif_hppir (update s False) c = of_nat SPURIOUS_IRQ \<and> \<not> irq_out (update s False) c)
    \<and> (distif_ctlr s \<noteq> 0 \<and> cpuif_ctlr s c \<noteq> 0 \<longrightarrow>
         (\<forall>w. spec_best s c w \<longrightarrow>
            cpuif_hppir (update s False) c =
              (if unat (get_irq_priority s c w) < unat (cpuif_pmr s c)
               then of_nat w else of_nat SPURIOUS_IRQ) \<and>
            (irq_out (update s False) c \<longleftrightarrow>
               unat (get_irq_priority s c w) < unat (cpuif_pmr s c) \<and>
               unat (get_irq_priority s c w) < unat (cpuif_rpr s c))) \<and>
         ((\<forall>j \<in> set [0..<m_irq_num s]. \<not> spec_candidate s c j) \<longrightarrow>
            cpuif_hppir (update s False) c = of_nat SPURIOUS_IRQ \<and>
            (irq_out (update s False) c \<longleftrightarrow>
               IDLE_PRIO < unat (cpuif_pmr s c) \<and> IDLE_PRIO < unat (cpuif_rpr s c))))
    \<and> ((\<exists>j \<in> set [0..<m_irq_num s]. spec_candidate s c j) \<longrightarrow> (\<exists>w. spec_best s c w))"
proof -
  have h: "cpuif_hppir (update s False) c =
      (if distif_ctlr s = 0 \<or> cpuif_ctlr s c = 0 then of_nat SPURIOUS_IRQ
       else if snd (scan_phys s c) < unat (cpuif_pmr s c)
            then of_nat (fst (scan_phys s c)) else of_nat SPURIOUS_IRQ)"
    and l: "irq_out (update s False) c \<longleftrightarrow>
      \<not> (distif_ctlr s = 0 \<or> cpuif_ctlr s c = 0) \<and>
      snd (scan_phys s c) < unat (cpuif_pmr s c) \<and>
      snd (scan_phys s c) < unat (cpuif_rpr s c)"
    using update_phys_bank [OF assms(1)] by (simp_all add: update_cpu_phys)
  note sr = scan_phys_result [OF assms(2,3), of c]
  have off: "distif_ctlr s = 0 \<or> cpuif_ctlr s c = 0 \<longrightarrow>
      cpuif_hppir (update s False) c = of_nat SPURIOUS_IRQ \<and> \<not> irq_out (update s False) c"
    using h l by simp
  have best: "cpuif_hppir (update s False) c =
        (if unat (get_irq_priority s c w) < unat (cpuif_pmr s c)
         then of_nat w else of_nat SPURIOUS_IRQ) \<and>
      (irq_out (update s False) c \<longleftrightarrow>
         unat (get_irq_priority s c w) < unat (cpuif_pmr s c) \<and>
         unat (get_irq_priority s c w) < unat (cpuif_rpr s c))"
    if en: "distif_ctlr s \<noteq> 0 \<and> cpuif_ctlr s c \<noteq> 0" and w: "spec_best s c w" for w
  proof -
    from w have "\<exists>j<m_irq_num s. spec_candidate s c j" by (auto simp: spec_best_def)
    with sr have b: "spec_best s c (fst (scan_phys s c))"
      "snd (scan_phys s c) = unat (get_irq_priority s c (fst (scan_phys s c)))"
      by simp_all
    from spec_best_unique [OF w b(1)] have "fst (scan_phys s c) = w" by simp
    with b(2) have "snd (scan_phys s c) = unat (get_irq_priority s c w)" by simp
    with \<open>fst (scan_phys s c) = w\<close> en show ?thesis using h l by simp
  qed
  have none: "cpuif_hppir (update s False) c = of_nat SPURIOUS_IRQ \<and>
      (irq_out (update s False) c \<longleftrightarrow>
         IDLE_PRIO < unat (cpuif_pmr s c) \<and> IDLE_PRIO < unat (cpuif_rpr s c))"
    if en: "distif_ctlr s \<noteq> 0 \<and> cpuif_ctlr s c \<noteq> 0"
      and n: "\<forall>j \<in> set [0..<m_irq_num s]. \<not> spec_candidate s c j"
  proof -
    from n have "\<not> (\<exists>j<m_irq_num s. spec_candidate s c j)" by simp
    with sr have "scan_phys s c = (SPURIOUS_IRQ, IDLE_PRIO)" by simp
    with en show ?thesis using h l by simp
  qed
  have ex: "(\<exists>j \<in> set [0..<m_irq_num s]. spec_candidate s c j) \<longrightarrow> (\<exists>w. spec_best s c w)"
  proof
    assume "\<exists>j \<in> set [0..<m_irq_num s]. spec_candidate s c j"
    then have "\<exists>j<m_irq_num s. spec_candidate s c j" by auto
    with sr show "\<exists>w. spec_best s c w" by auto
  qed
  from off best none ex show ?thesis by blast
qed

lemma arb_example_candidates:
  "spec_candidate arb_example 0 j \<longleftrightarrow> j = 2 \<or> j = 33"
  "spec_candidate arb_disabled 0 j \<longleftrightarrow> j = 2 \<or> j = 33"
  by (auto simp: spec_candidate_def arb_disabled_def arb_example_def gic_reset_def
      is_irq_enabled_def test_pending_def is_irq_pending_def is_irq_active_def
      get_irq_level_def irq_signaled_def get_irq_trigger_def irq_state_init_def cpu_bit_def
      NPRIV_def NSGI_def NPPI_def)

lemma arb_example_prio:
  "j < NIRQ \<Longrightarrow> get_irq_priority arb_example 0 j = (if j < NSGI \<or> NPRIV \<le> j then 0x10 else 0)"
  "j < NIRQ \<Longrightarrow> get_irq_priority arb_disabled 0 j = (if j < NSGI \<or> NPRIV \<le> j then 0x10 else 0)"
  by (auto simp: get_irq_priority_def arb_disabled_def arb_example_def gic_reset_def NPRIV_def)

lemma arb_example_best:
  "spec_best arb_example 0 2" "spec_best arb_disabled 0 2"
  by (auto simp: spec_best_def arb_example_candidates arb_example_prio NIRQ_def NSGI_def NPRIV_def NPPI_def)
     (simp_all add: arb_disabled_def arb_example_def gic_reset_def)

theorem update_reports_best_witness:
  "cpuif_hppir (update arb_example False) 0 = 2 \<and> irq_out (update arb_example False) 0
   \<and> cpuif_hppir (update arb_disabled False) 0 = 1023 \<and> \<not> irq_out (update arb_disabled False) 0"
proof -
  have c: "0 < m_cpu_num arb_example" "NPRIV \<le> m_irq_num arb_example"
    "m_irq_num arb_example \<le> NIRQ"
    by (simp_all add: arb_example_def gic_reset_def NPRIV_def NSGI_def NPPI_def NIRQ_def)
  have d: "0 < m_cpu_num arb_disabled" "NPRIV \<le> m_irq_num arb_disabled"
    "m_irq_num arb_disabled \<le> NIRQ"
    by (simp_all add: arb_disabled_def arb_example_def gic_reset_def NPRIV_def NSGI_def NPPI_def NIRQ_def)
  have en: "distif_ctlr arb_example \<noteq> 0 \<and> cpuif_ctlr arb_example 0 \<noteq> 0"
    and dis: "distif_ctlr arb_disabled = 0 \<or> cpuif_ctlr arb_disabled 0 = 0"
    by (simp_all add: arb_disabled_def arb_example_def)
  have r: "cpuif_pmr arb_example 0 = 0xff" "cpuif_rpr arb_example 0 = 0x100"
    by (simp_all add: arb_example_def gic_reset_def IDLE_PRIO_def)
  have p: "get_irq_priority arb_example 0 2 = 0x10"
    using arb_example_prio(1) [of 2] by (simp add: NIRQ_def NSGI_def)
  from update_reports_best [OF c] en arb_example_best(1)
  have "cpuif_hppir (update arb_example False) 0 = 2 \<and> irq_out (update arb_example False) 0"
    by (auto simp: r p)
  moreover from update_reports_best [OF d] dis
  have "cpuif_hppir (update arb_disabled False) 0 = 1023 \<and> \<not> irq_out (update arb_disabled False) 0"
    by (auto simp: SPURIOUS_IRQ_def)
  ultimately show ?thesis by blast
qed

text \<open>
  The claim as written fails: with the distributor disabled SGI 2 is the best candidate
  of CPU 0 and its priority is below PMR and RPR, yet \<^verbatim>\<open>HPPIR.bank(0)\<close> is
  \<^verbatim>\<open>SPURIOUS\<close> and the line is low.
\<close>

theorem update_disabled_hides_best:
  "spec_best arb_disabled 0 2
   \<and> unat (get_irq_priority arb_disabled 0 2) < unat (cpuif_pmr arb_disabled 0)
   \<and> unat (get_irq_priority arb_disabled 0 2) < unat (cpuif_rpr arb_disabled 0)
   \<and> cpuif_hppir (update arb_disabled False) 0 = 1023
   \<and> \<not> irq_out (update arb_disabled False) 0"
proof -
  have d: "0 < m_cpu_num arb_disabled"
    by (simp add: arb_disabled_def arb_example_def gic_reset_def)
  have r: "cpuif_pmr arb_disabled 0 = 0xff" "cpuif_rpr arb_disabled 0 = 0x100"
    "get_irq_priority arb_disabled 0 2 = 0x10" "distif_ctlr arb_disabled = 0"
    by (simp_all add: arb_disabled_def arb_example_def gic_reset_def IDLE_PRIO_def
        get_irq_priority_def NSGI_def)
  show ?thesis
    using arb_example_best(2) update_phys_bank [OF d]
    by (simp add: update_cpu_phys r SPURIOUS_IRQ_def)
qed

section \<open>End of interrupt out of order\<close>

lemmas gic_eval = update_def update_cpu_def Let_def upt_rec NSGI_def NPPI_def NPRIV_def NCPU_def
  SPURIOUS_IRQ_def IDLE_PRIO_def ALL_CPU_def cpu_bit_def
  check_sgi_def check_ppi_def check_spi_def is_irq_enabled_def test_pending_def
  is_irq_pending_def is_irq_active_def get_irq_level_def irq_signaled_def get_irq_trigger_def
  irq_state_init_def set_irq_pending_def set_irq_signaled_def set_irq_active_def
  set_sgi_pending_def get_irq_priority_def get_irq_model_def

lemma ooo_s4_eq: "ooo_s4 = (gic_reset 4 2 1 32)\<lparr>distif_ctlr := 1, cpuif_ctlr := (\<lambda>_. 0)(0 := 1),
    cpuif_pmr := (\<lambda>_. 0)(0 := 0xff),
    distif_ipriority_sgi := (\<lambda>_ _. 0)(0 := (\<lambda>_. 0)(1 := 0x80))\<rparr>"
  by (simp add: ooo_s4_def distif_write_ctlr_def cpuif_write_ctlr_def cpuif_write_pmr_def
      gic_reset_def gic_eval fun_eq_iff)

lemma ooo_s5_eq: "ooo_s5 = ooo_s4\<lparr>
     m_irq_state := (\<lambda>irq. if irq = 1 then irq_state_init\<lparr>enabled := 0xff, pending := 1\<rparr>
                              else if irq < NSGI then irq_state_init\<lparr>enabled := 0xff\<rparr>
                              else irq_state_init),
     distif_spendsgir := (\<lambda>cpu irq. if cpu = 0 \<and> irq = 1 then 1 else 0),
     distif_cpendsgir := (\<lambda>cpu irq. if cpu = 0 \<and> irq = 1 then 1 else 0),
     cpuif_hppir := (\<lambda>cpu. if cpu = 0 then 1 else 1023),
     irq_out := (\<lambda>cpu. cpu = 0)\<rparr>"
  unfolding ooo_s5_def ooo_s4_eq
  by (simp add: write_sgir_def write_sgir_target_def bank_of_def gic_reset_def gic_eval)
     (auto simp: fun_eq_iff irq_state_init_def NSGI_def SPURIOUS_IRQ_def)

lemma ctz1: "ctz 1 = 0" by (simp add: ctz_def upt_rec)

lemma ooo_ack1: "cpuif_read_iar ooo_s5 0 = Inr (1, ooo_s6)"
  unfolding ooo_s5_eq ooo_s4_eq ooo_s6_def
  by (simp add: cpuif_read_iar_def set_current_irq_def bank_of_def gic_reset_def ctz1 gic_eval)
     (auto simp: fun_eq_iff irq_state_init_def NSGI_def SPURIOUS_IRQ_def)

lemma ooo_s7_eq: "ooo_s7 = ooo_s6\<lparr>
     m_irq_state := (\<lambda>irq. if irq = 0 then irq_state_init\<lparr>enabled := 0xff, pending := 1\<rparr>
                              else if irq = 1 then irq_state_init\<lparr>enabled := 0xff, active := 1, signaled := 1\<rparr>
                              else if irq < NSGI then irq_state_init\<lparr>enabled := 0xff\<rparr>
                              else irq_state_init),
     distif_spendsgir := (\<lambda>cpu irq. if cpu = 0 \<and> irq = 0 then 1 else 0),
     distif_cpendsgir := (\<lambda>cpu irq. if cpu = 0 \<and> irq = 0 then 1 else 0),
     cpuif_hppir := (\<lambda>cpu. if cpu = 0 then 0 else 1023),
     irq_out := (\<lambda>cpu. cpu = 0)\<rparr>"
  unfolding ooo_s7_def ooo_s6_def
  by (simp add: write_sgir_def write_sgir_target_def bank_of_def gic_reset_def gic_eval)
     (auto simp: fun_eq_iff irq_state_init_def NSGI_def SPURIOUS_IRQ_def)

lemma ooo_ack0: "cpuif_read_iar ooo_s7 0 = Inr (0, ooo_s8)"
  unfolding ooo_s7_eq ooo_s8_def ooo_s6_def
  by (simp add: cpuif_read_iar_def set_current_irq_def bank_of_def gic_reset_def ctz1 gic_eval)
     (auto simp: fun_eq_iff irq_state_init_def NSGI_def SPURIOUS_IRQ_def)

lemma ooo_eoir1: "cpuif_write_eoir ooo_s8 0 1 = Some ([], ooo_s9)"
proof -
  have a: "m_curr_irq ooo_s8 0 = 0" "m_irq_num ooo_s8 = 32"
    by (simp_all add: ooo_s8_def ooo_s6_def gic_reset_def)
  have p: "m_prev_irq ooo_s8 = (\<lambda>irq cpu. if irq = 0 \<and> cpu = 0 then 1 else SPURIOUS_IRQ)"
    by (simp add: ooo_s8_def)
  have u: "eoir_unlink (m_prev_irq ooo_s8) 0 (Suc 0) 0 = Some (\<lambda>irq cpu. SPURIOUS_IRQ)"
    by (subst eoir_unlink.simps) (auto simp: p SPURIOUS_IRQ_def fun_eq_iff)
  show ?thesis
    by (simp add: cpuif_write_eoir_def bank_of_def get_irq_num_def a u SPURIOUS_IRQ_def
        ooo_s9_def Let_def)
qed

lemma ooo_s9_chain: "on_chain ooo_s9 cpu irq \<Longrightarrow> irq = 0"
  by (induction rule: on_chain.induct)
     (auto simp: ooo_s9_def ooo_s8_def ooo_s6_def gic_reset_def SPURIOUS_IRQ_def split: if_splits)

text \<open>
  What the out-of-order path does in general: it rewrites one link and leaves the
  interrupt table, and so every active bit, as it was.
\<close>

lemma eoir_other_keeps_table:
  assumes "m_curr_irq s c \<noteq> SPURIOUS_IRQ"
    and "unat (val AND 0x3ff) < m_irq_num s"
    and "unat (val AND 0x3ff) \<noteq> m_curr_irq s c"
    and "cpuif_write_eoir s (int c) val = Some (w, s')"
  shows "m_irq_state s' = m_irq_state s \<and> m_curr_irq s' = m_curr_irq s"
  using assms
  by (auto simp: cpuif_write_eoir_def bank_of_def get_irq_num_def Let_def
      split: option.splits)

text \<open>
  C7 says that an interrupt whose active bit is set is on the preemption chain of some
  CPU in every reachable state, the out-of-order EOIR path included. The code breaks
  this on that path: in the run above both acknowledges succeed, the write of 1 to EOIR
  unlinks SGI 1 from the chain of CPU 0, and afterwards SGI 1 is still active for CPU 0
  and on no CPU's chain. The in-order path clears the active bit; this one does not.
\<close>

theorem eoir_out_of_order_leaves_active:
  "cpuif_read_iar ooo_s5 0 = Inr (1, ooo_s6)
   \<and> cpuif_read_iar ooo_s7 0 = Inr (0, ooo_s8)
   \<and> cpuif_write_eoir ooo_s8 0 1 = Some ([], ooo_s9)
   \<and> is_irq_active ooo_s9 1 (cpu_bit 0)
   \<and> (\<nexists>cpu. on_chain ooo_s9 cpu 1)"
proof -
  have "is_irq_active ooo_s9 1 (cpu_bit 0)"
    by (simp add: ooo_s9_def ooo_s8_def ooo_s6_def is_irq_active_def cpu_bit_def)
  moreover have "\<nexists>cpu. on_chain ooo_s9 cpu 1"
    using ooo_s9_chain by fastforce
  ultimately show ?thesis using ooo_ack1 ooo_ack0 ooo_eoir1 by blast
qed

section \<open>Virtual interrupts backed by a hardware interrupt\<close>

lemma update_cpu_frame2:
  "vifctrl_lr (update_cpu s v c) = vifctrl_lr s"
  "vifctrl_hcr (update_cpu s v c) = vifctrl_hcr s"
  "vcpuif_pmr (update_cpu s v c) = vcpuif_pmr s"
  "vcpuif_bpr (update_cpu s v c) = vcpuif_bpr s"
  by (simp_all add: update_cpu_def Let_def)

lemma update_fold_frame2:
  "vifctrl_lr (fold (\<lambda>cpu s'. update_cpu s' v cpu) cs s) = vifctrl_lr s"
  "vifctrl_hcr (fold (\<lambda>cpu s'. update_cpu s' v cpu) cs s) = vifctrl_hcr s"
  "vcpuif_pmr (fold (\<lambda>cpu s'. update_cpu s' v cpu) cs s) = vcpuif_pmr s"
  "vcpuif_bpr (fold (\<lambda>cpu s'. update_cpu s' v cpu) cs s) = vcpuif_bpr s"
  by (induction cs arbitrary: s; simp add: update_cpu_frame2)+

lemma update_frame2:
  "vifctrl_lr (update s v) = vifctrl_lr s"
  "vifctrl_hcr (update s v) = vifctrl_hcr s"
  "vcpuif_pmr (update s v) = vcpuif_pmr s"
  "vcpuif_bpr (update s v) = vcpuif_bpr s"
  by (simp_all add: update_def update_fold_frame2)

lemma check_lr_irrelevant:
  "check_lr (s\<lparr>vcpuif_hppir := h\<rparr>) c = check_lr s c"
  "check_lr (s\<lparr>virq_out := ou\<rparr>) c = check_lr s c"
  by (simp_all add: fun_eq_iff check_lr_def is_lr_pending_def Let_def)

lemma update_cpu_virt:
  "update_cpu s True c =
     s\<lparr>vcpuif_hppir := (vcpuif_hppir s)
          (c := if vifctrl_hcr s c = 0 then of_nat SPURIOUS_IRQ
                else if snd (scan_virt s c) < unat (vcpuif_pmr s c)
                     then of_nat (fst (scan_virt s c)) else of_nat SPURIOUS_IRQ),
       virq_out := (virq_out s)
          (c := vifctrl_hcr s c \<noteq> 0 \<and>
                snd (scan_virt s c) < unat (vcpuif_pmr s c) \<and>
                snd (scan_virt s c) < unat (vcpuif_rpr s c))\<rparr>"
  by (simp add: update_cpu_def Let_def scan_virt_def check_lr_irrelevant)

lemma scan_virt_irrelevant:
  "scan_virt (s\<lparr>vcpuif_hppir := h, virq_out := ou\<rparr>) c = scan_virt s c"
  by (simp add: scan_virt_def check_lr_irrelevant)

lemma update_fold_virt:
  "fold (\<lambda>cpu s'. update_cpu s' True cpu) cs (s\<lparr>vcpuif_hppir := h, virq_out := ou\<rparr>) =
     s\<lparr>vcpuif_hppir := (\<lambda>c. if c \<in> set cs then vcpuif_hppir (update_cpu s True c) c else h c),
       virq_out := (\<lambda>c. if c \<in> set cs then virq_out (update_cpu s True c) c else ou c)\<rparr>"
proof (induction cs arbitrary: h ou)
  case Nil
  then show ?case by simp
next
  case (Cons x xs)
  have step: "update_cpu (s\<lparr>vcpuif_hppir := h, virq_out := ou\<rparr>) True x =
      s\<lparr>vcpuif_hppir := h(x := vcpuif_hppir (update_cpu s True x) x),
        virq_out := ou(x := virq_out (update_cpu s True x) x)\<rparr>"
    by (simp add: update_cpu_virt scan_virt_irrelevant)
  show ?case
    unfolding fold_simps step Cons.IH
    by (rule gic400.equality; auto simp: fun_eq_iff)
qed

lemma update_virt_bank:
  assumes "c < m_cpu_num s"
  shows "vcpuif_hppir (update s True) c = vcpuif_hppir (update_cpu s True c) c"
proof -
  have "s = s\<lparr>vcpuif_hppir := vcpuif_hppir s, virq_out := virq_out s\<rparr>" by simp
  then have "update s True =
     fold (\<lambda>cpu s'. update_cpu s' True cpu) [0..<m_cpu_num s]
       (s\<lparr>vcpuif_hppir := vcpuif_hppir s, virq_out := virq_out s\<rparr>)"
    by (simp add: update_def)
  then show ?thesis
    using assms by (simp only: update_fold_virt) simp
qed

lemma find_app:
  "find P (xs @ ys) = (case find P xs of None \<Rightarrow> find P ys | Some x \<Rightarrow> Some x)"
  by (induction xs) simp_all

lemma find_first:
  assumes "idx < n" "P idx" "\<forall>i<idx. \<not> P i"
  shows "find P [0..<n] = Some idx"
proof -
  have "[0..<n] = [0..<idx] @ [idx..<n]"
    using assms(1) upt_add_eq_append [of 0 idx "n - idx"] by simp
  moreover have "[idx..<n] = idx # [Suc idx..<n]"
    using assms(1) by (simp add: upt_conv_Cons)
  moreover have "find P [0..<idx] = None"
    using assms(3) by (simp add: find_None_iff)
  ultimately show ?thesis using assms(2) by (simp add: find_app)
qed

lemma drop_bit_and_push_bit:
  "drop_bit n ((a::u32) AND push_bit n m) = drop_bit n a AND m"
  by (rule bit_eqI) (auto simp: bit_drop_bit_eq bit_and_iff bit_push_bit_iff dest: bit_imp_possible_bit)

lemma unat_ucast_prio: "unat (ucast ((x::u32) AND 0x1f) :: u8) = unat (x AND 0x1f)"
proof -
  have "x AND 0x1f \<le> 0x1f" by (rule word_and_le1)
  then have "unat (x AND 0x1f) \<le> 31" by (simp add: word_le_nat_alt)
  then show ?thesis by (simp add: unsigned_ucast_eq take_bit_nat_eq_self)
qed

lemma ucast_vid_eq: "(ucast (x::u16) :: u32) = 10 \<longleftrightarrow> x = 10"
proof
  assume "(ucast x :: u32) = 10"
  then have "unat (ucast x :: u32) = 10" by simp
  moreover have "unat x < 2 ^ 32"
    using unsigned_less [of x, where ?'a = nat] by simp
  ultimately have "unat x = unat (10::u16)"
    by (simp add: unsigned_ucast_eq take_bit_nat_eq_self)
  then show "x = 10" by (simp only: word_unat_eq_iff)
next
  assume "x = 10" then show "(ucast x :: u32) = 10" by simp
qed

lemma write_lr_loaded:
  assumes "lr_hw_request val"
  shows "write_lr s c val idx =
     update (s\<lparr>m_lr_state := (m_lr_state s)(c := (m_lr_state s c)
                 (idx := (m_lr_state s c idx)\<lparr>le_cpu_id := 0, le_hw := True,
                     le_physical_id := 42, le_pending := True,
                     le_prio := ucast (drop_bit 23 val AND 0x1f), le_virtual_id := 10\<rparr>)),
              vifctrl_lr := (vifctrl_lr s)(c := (vifctrl_lr s c)(idx := val))\<rparr>) True"
  using assms
  by (simp add: write_lr_def lr_hw_request_def Let_def set_lr_cpuid_def set_lr_hw_def
      set_lr_physid_def set_lr_pending_def set_lr_active_def set_lr_prio_def set_lr_vid_def
      upd_lr_def)

lemma check_lr_prio:
  "check_lr s c i b =
     (if is_lr_pending s i c \<and> lr_prio_field (vifctrl_lr s c i) < snd b
      then (unat (vifctrl_lr s c i AND 0x1ff), lr_prio_field (vifctrl_lr s c i)) else b)"
proof -
  have "unat (ucast (drop_bit 23 (vifctrl_lr s c i AND push_bit 23 0x1f)) :: u8) =
      lr_prio_field (vifctrl_lr s c i)"
    unfolding lr_prio_field_def by (simp only: drop_bit_and_push_bit unat_ucast_prio)
  then show ?thesis
    unfolding check_lr_def Let_def by simp
qed

lemma scan_lr_keep_above:
  assumes "\<forall>i\<in>set xs. is_lr_pending s i c \<longrightarrow> p < lr_prio_field (vifctrl_lr s c i)"
    and "p < snd b"
  shows "p < snd (fold (check_lr s c) xs b)"
  using assms
proof (induction xs arbitrary: b)
  case Nil
  then show ?case by simp
next
  case (Cons x xs)
  have "p < snd (check_lr s c x b)"
    using Cons.prems by (simp add: check_lr_prio)
  with Cons show ?case by simp
qed

lemma scan_lr_unchanged:
  assumes "\<forall>i\<in>set xs. is_lr_pending s i c \<longrightarrow> snd b \<le> lr_prio_field (vifctrl_lr s c i)"
  shows "fold (check_lr s c) xs b = b"
  using assms
proof (induction xs)
  case Nil
  then show ?case by simp
next
  case (Cons x xs)
  have "check_lr s c x b = b"
    using Cons.prems by (auto simp: check_lr_prio)
  with Cons show ?case by simp
qed

text \<open>
  The scan returns the id and priority fields of list register \<open>idx\<close> when it is pending
  and wins: every pending register before it has a higher priority value, every pending
  register after it a priority value that is not lower.
\<close>

lemma scan_lr_winner:
  assumes "idx < n" "is_lr_pending s idx c"
    and "lr_prio_field (vifctrl_lr s c idx) < p0"
    and "\<forall>i<idx. is_lr_pending s i c \<longrightarrow>
           lr_prio_field (vifctrl_lr s c idx) < lr_prio_field (vifctrl_lr s c i)"
    and "\<forall>i<n. idx < i \<longrightarrow> is_lr_pending s i c \<longrightarrow>
           lr_prio_field (vifctrl_lr s c idx) \<le> lr_prio_field (vifctrl_lr s c i)"
  shows "fold (check_lr s c) [0..<n] (i0, p0) =
     (unat (vifctrl_lr s c idx AND 0x1ff), lr_prio_field (vifctrl_lr s c idx))"
proof -
  let ?p = "lr_prio_field (vifctrl_lr s c idx)"
  let ?w = "(unat (vifctrl_lr s c idx AND 0x1ff), ?p)"
  have split: "[0..<n] = [0..<idx] @ idx # [Suc idx..<n]"
    using assms(1) upt_add_eq_append [of 0 idx "n - idx"] by (simp add: upt_conv_Cons)
  have a: "?p < snd (fold (check_lr s c) [0..<idx] (i0, p0))"
    using assms(3,4) by (intro scan_lr_keep_above) simp_all
  then have b: "check_lr s c idx (fold (check_lr s c) [0..<idx] (i0, p0)) = ?w"
    using assms(2) by (simp add: check_lr_prio)
  have c: "fold (check_lr s c) [Suc idx..<n] ?w = ?w"
    using assms(5) by (intro scan_lr_unchanged) simp
  show ?thesis
    unfolding split by (simp add: b c)
qed

lemma update_virt_winner:
  assumes "c < m_cpu_num s" "idx < NLR s" "vifctrl_hcr s c \<noteq> 0"
    and "is_lr_pending s idx c"
    and "\<forall>i<idx. is_lr_pending s i c \<longrightarrow>
           lr_prio_field (vifctrl_lr s c idx) < lr_prio_field (vifctrl_lr s c i)"
    and "\<forall>i<NLR s. idx < i \<longrightarrow> is_lr_pending s i c \<longrightarrow>
           lr_prio_field (vifctrl_lr s c idx) \<le> lr_prio_field (vifctrl_lr s c i)"
    and "lr_prio_field (vifctrl_lr s c idx) < unat (vcpuif_pmr s c)"
  shows "vcpuif_hppir (update s True) c = vifctrl_lr s c idx AND 0x1ff"
proof -
  let ?p = "lr_prio_field (vifctrl_lr s c idx)"
  have "drop_bit 23 (vifctrl_lr s c idx) AND 0x1f \<le> 0x1f" by (rule word_and_le1)
  then have "?p \<le> 31" by (simp add: lr_prio_field_def word_le_nat_alt)
  then have lt: "?p < IDLE_PRIO" by (simp add: IDLE_PRIO_def)
  have sv: "scan_virt s c = (unat (vifctrl_lr s c idx AND 0x1ff), ?p)"
    unfolding scan_virt_def
    using assms(2,4) lt assms(5,6) by (rule scan_lr_winner)
  have "vcpuif_hppir (update s True) c = vcpuif_hppir (update_cpu s True c) c"
    using assms(1) by (rule update_virt_bank)
  also have "\<dots> = (if ?p < unat (vcpuif_pmr s c)
                    then of_nat (unat (vifctrl_lr s c idx AND 0x1ff)) else of_nat SPURIOUS_IRQ)"
    using assms(3) by (simp add: update_cpu_virt sv)
  also have "\<dots> = vifctrl_lr s c idx AND 0x1ff"
    using assms(7) by simp
  finally show ?thesis .
qed

lemma get_lr_first:
  assumes "idx < NLR s" "idx < 256" "lr_matches s c irq idx" "\<forall>i<idx. \<not> lr_matches s c irq i"
  shows "get_lr s irq c = idx"
    and "vifctrl_get_irq_priority s c irq = le_prio (m_lr_state s c idx)"
proof -
  have f: "find (lr_matches s c irq) [0..<NLR s] = Some idx"
    using assms(1,3,4) by (rule find_first)
  have "unat (of_nat idx :: u8) = idx"
    using assms(2) by (simp add: unat_of_nat)
  then show "get_lr s irq c = idx" by (simp add: get_lr_def f)
  show "vifctrl_get_irq_priority s c irq = le_prio (m_lr_state s c idx)"
    by (simp add: vifctrl_get_irq_priority_def f)
qed

lemma lr_matches_frame:
  "m_lr_state t = m_lr_state s \<Longrightarrow> lr_matches t c irq i = lr_matches s c irq i"
  by (simp add: lr_matches_def)

lemma get_lr_frame:
  "m_lr_state t = m_lr_state s \<Longrightarrow> NLR t = NLR s \<Longrightarrow> get_lr t irq c = get_lr s irq c"
  by (simp add: get_lr_def lr_matches_def [abs_def])

lemma lr_entry_after_ack:
  "m_lr_state (update (set_lr_pending (set_lr_active s lr c True) lr c False) True) =
     (m_lr_state s)(c := (m_lr_state s c)
        (lr := (m_lr_state s c lr)\<lparr>le_active := True, le_pending := False\<rparr>))"
  by (simp add: update_frame set_lr_pending_def set_lr_active_def upd_lr_def)

lemma lr_frame_after_ack:
  "NLR (update (set_lr_pending (set_lr_active s lr c True) lr c False) True) = NLR s"
  "m_irq_num (update (set_lr_pending (set_lr_active s lr c True) lr c False) True) = m_irq_num s"
  by (simp_all add: update_frame set_lr_pending_def set_lr_active_def upd_lr_def)

lemma vread_iar_first:
  assumes "vcpuif_hppir s c = 10" "idx < NLR s" "idx < 256"
    and "lr_matches s c 10 idx" "\<forall>i<idx. \<not> lr_matches s c 10 i"
    and "unat (le_prio (m_lr_state s c idx)) < unat (vcpuif_rpr s c)"
    and "le_cpu_id (m_lr_state s c idx) = 0"
  shows "fst (vcpuif_read_iar s c) = 10"
    and "m_lr_state (snd (vcpuif_read_iar s c)) =
           (m_lr_state s)(c := (m_lr_state s c)
              (idx := (m_lr_state s c idx)\<lparr>le_active := True, le_pending := False\<rparr>))"
    and "NLR (snd (vcpuif_read_iar s c)) = NLR s"
    and "m_irq_num (snd (vcpuif_read_iar s c)) = m_irq_num s"
proof -
  note g = get_lr_first [OF assms(2,3,4,5)]
  have ns: "vcpuif_hppir s c \<noteq> of_nat SPURIOUS_IRQ"
    by (simp add: assms(1) SPURIOUS_IRQ_def)
  have pr: "unat (vifctrl_get_irq_priority s c (vcpuif_hppir s c)) < unat (vcpuif_rpr s c)"
    using assms(6) by (simp add: assms(1) g(2))
  define prio :: u32 where "prio = push_bit 3 (ucast (vifctrl_get_irq_priority s c (vcpuif_hppir s c)))"
  define s2 where "s2 =
     s\<lparr>vcpuif_rpr := (vcpuif_rpr s)
          (c := prio AND push_bit (unat (vcpuif_bpr s c AND 0x07) + 1) (- 1)),
       vifctrl_apr := (vifctrl_apr s)
          (c := vifctrl_apr s c OR push_bit (unat (drop_bit (VIRT_MIN_BPR s + 1) prio) mod 32) 1)\<rparr>"
  define s5 where "s5 = update (set_lr_pending (set_lr_active s2 idx c True) idx c False) True"
  have m2: "m_lr_state s2 = m_lr_state s" "NLR s2 = NLR s" "m_irq_num s2 = m_irq_num s"
    by (simp_all add: s2_def)
  have lr: "get_lr s2 (vcpuif_hppir s c) c = idx"
    using g(1) get_lr_frame [OF m2(1,2), of "vcpuif_hppir s c" c] by (simp add: assms(1))
  have "vcpuif_read_iar s c =
      (push_bit 10 (ucast (get_lr_cpuid
          (update (set_lr_pending (set_lr_active s2 (get_lr s2 (vcpuif_hppir s c) c) c True)
             (get_lr s2 (vcpuif_hppir s c) c) c False) True)
          (get_lr s2 (vcpuif_hppir s c) c) c) AND 0x111) OR vcpuif_hppir s c,
       update (set_lr_pending (set_lr_active s2 (get_lr s2 (vcpuif_hppir s c) c) c True)
             (get_lr s2 (vcpuif_hppir s c) c) c False) True)"
    using ns pr unfolding vcpuif_read_iar_def Let_def s2_def prio_def by simp
  then have r: "vcpuif_read_iar s c =
      (push_bit 10 (ucast (get_lr_cpuid s5 idx c) AND 0x111) OR vcpuif_hppir s c, s5)"
    unfolding lr s5_def .
  have e: "m_lr_state s5 =
      (m_lr_state s)(c := (m_lr_state s c)
         (idx := (m_lr_state s c idx)\<lparr>le_active := True, le_pending := False\<rparr>))"
    unfolding s5_def lr_entry_after_ack m2 ..
  have "get_lr_cpuid s5 idx c = 0"
    by (simp add: get_lr_cpuid_def e assms(7))
  then show "fst (vcpuif_read_iar s c) = 10"
    by (simp add: r assms(1))
  show "m_lr_state (snd (vcpuif_read_iar s c)) =
           (m_lr_state s)(c := (m_lr_state s c)
              (idx := (m_lr_state s c idx)\<lparr>le_active := True, le_pending := False\<rparr>))"
    by (simp add: r e)
  show "NLR (snd (vcpuif_read_iar s c)) = NLR s"
    by (simp add: r s5_def lr_frame_after_ack m2)
  show "m_irq_num (snd (vcpuif_read_iar s c)) = m_irq_num s"
    by (simp add: r s5_def lr_frame_after_ack m2)
qed

lemma clear_active_bit:
  "(ucast ((a::u8) AND NOT (ucast (cpu_bit c))) :: u32) AND cpu_bit c = 0"
  by (rule bit_eqI)
     (auto simp: bit_and_iff bit_not_iff bit_ucast_iff cpu_bit_def bit_push_bit_iff bit_exp_iff)

lemma vwrite_eoir_first:
  assumes "10 < m_irq_num s" "idx < NLR s" "idx < 256"
    and "lr_matches s c 10 idx" "\<forall>i<idx. \<not> lr_matches s c 10 i"
    and "le_hw (m_lr_state s c idx)" "le_physical_id (m_lr_state s c idx) = 42"
  shows "\<not> le_active (m_lr_state (vcpuif_write_eoir s c 10) c idx)"
    and "\<not> is_irq_active (vcpuif_write_eoir s c 10) 42 (cpu_bit c)"
    and "active (m_irq_state (vcpuif_write_eoir s c 10) 42) =
           active (m_irq_state s 42) AND NOT (ucast (cpu_bit c))"
proof -
  note g = get_lr_first [OF assms(2,3,4,5)]
  define a where "a = vifctrl_apr s c AND (vifctrl_apr s c - 1)"
  define s1 where "s1 = s\<lparr>vifctrl_apr := (vifctrl_apr s)(c := a)\<rparr>"
  define s2 where "s2 =
     (if a \<noteq> 0
      then s1\<lparr>vcpuif_rpr := (vcpuif_rpr s1)
               (c := push_bit (VIRT_MIN_BPR s1 + 1) (word_of_int (fls a)))\<rparr>
      else s1\<lparr>vcpuif_rpr := (vcpuif_rpr s1)(c := of_nat IDLE_PRIO)\<rparr>)"
  define s4 where "s4 = set_irq_active (set_lr_active s2 idx c False) 42 False (cpu_bit c)"
  have m2: "m_lr_state s2 = m_lr_state s" "NLR s2 = NLR s"
    by (simp_all add: s2_def s1_def)
  have lr: "get_lr s2 10 c = idx"
    using g(1) get_lr_frame [OF m2, of 10 c] by simp
  have hw: "is_lr_hw (set_lr_active s2 idx c False) idx c"
    and ph: "unat (get_lr_physid (set_lr_active s2 idx c False) idx c) = 42"
    using assms(6,7)
    by (simp_all add: is_lr_hw_def get_lr_physid_def set_lr_active_def upd_lr_def m2)
  have irq: "(10::u32) AND 0x1ff = 10" "unat (10::u32) = 10" by simp_all
  have "vcpuif_write_eoir s c 10 =
      (let s3 = set_lr_active s2 (get_lr s2 10 c) c False;
           s4 = (if is_lr_hw s3 (get_lr s2 10 c) c
                 then (let physid = unat (get_lr_physid s3 (get_lr s2 10 c) c)
                       in if \<not> (physid < NSGI \<or> physid > NIRQ)
                          then set_irq_active s3 physid False (cpu_bit c) else s3)
                 else s3);
           s5 = update s4 True
       in s5\<lparr>vcpuif_eoir := (vcpuif_eoir s5)(c := 10)\<rparr>)"
    using assms(1)
    unfolding vcpuif_write_eoir_def s2_def s1_def a_def irq get_irq_num_def
    by (simp add: Let_def)
  then have r: "vcpuif_write_eoir s c 10 =
      (update s4 True)\<lparr>vcpuif_eoir := (vcpuif_eoir (update s4 True))(c := 10)\<rparr>"
    unfolding lr Let_def s4_def using hw ph by (simp add: NSGI_def NIRQ_def)
  show "\<not> le_active (m_lr_state (vcpuif_write_eoir s c 10) c idx)"
    by (simp add: r update_frame s4_def set_irq_active_def set_lr_active_def upd_lr_def)
  show "\<not> is_irq_active (vcpuif_write_eoir s c 10) 42 (cpu_bit c)"
    by (simp add: r update_frame s4_def is_irq_active_def set_irq_active_def clear_active_bit)
  have "m_irq_state s2 = m_irq_state s" by (simp add: s2_def s1_def)
  then show "active (m_irq_state (vcpuif_write_eoir s c 10) 42) =
           active (m_irq_state s 42) AND NOT (ucast (cpu_bit c))"
    by (simp add: r update_frame s4_def set_irq_active_def set_lr_active_def upd_lr_def)
qed

lemma write_lr_table: "m_irq_state (write_lr s c val idx) = m_irq_state s"
  by (simp add: write_lr_def Let_def update_frame set_lr_cpuid_def set_lr_hw_def
      set_lr_physid_def set_lr_pending_def set_lr_active_def set_lr_prio_def set_lr_vid_def
      upd_lr_def)

lemma vread_iar_table: "m_irq_state (snd (vcpuif_read_iar s c)) = m_irq_state s"
  by (simp add: vcpuif_read_iar_def Let_def update_frame set_lr_pending_def set_lr_active_def
      upd_lr_def)

text \<open>
  C4, as the code has it. Let the hypervisor write list register \<open>idx\<close> of a connected
  CPU \<open>c\<close> with \<^verbatim>\<open>hw = 1\<close>, \<^verbatim>\<open>physical_id = 42\<close>, \<^verbatim>\<open>virtual_id = 10\<close> and state pending,
  while the virtual interface of \<open>c\<close> is enabled (HCR not 0), the priority of the list
  register is below the virtual PMR and RPR of \<open>c\<close>, the list register wins the
  arbitration among the pending list registers of \<open>c\<close> (a pending one with a lower
  number has a higher priority value, a pending one with a higher number a priority
  value that is not lower), and no lower-numbered list register of \<open>c\<close> holds virtual
  id 10 in active or pending state. Then the next virtual IAR read by \<open>c\<close> returns 10,
  leaves that list register active and not pending and the distributor's interrupt
  table as it was; and a virtual EOIR write of 10 by \<open>c\<close> after it leaves the list
  register inactive and removes exactly the bit of \<open>c\<close> from the active mask of
  physical interrupt 42.
\<close>

theorem virtual_hw_irq_lifecycle:
  assumes c: "c < m_cpu_num s" and idx: "idx < NLR s" "idx < 256"
    and irqn: "10 < m_irq_num s"
    and hcr: "vifctrl_hcr s c \<noteq> 0"
    and req: "lr_hw_request val"
    and pmr: "lr_prio_field val < unat (vcpuif_pmr s c)"
    and rpr: "lr_prio_field val < unat (vcpuif_rpr s c)"
    and before: "\<forall>i<idx. le_pending (m_lr_state s c i) \<longrightarrow>
                   lr_prio_field val < lr_prio_field (vifctrl_lr s c i)"
    and after: "\<forall>i<NLR s. idx < i \<longrightarrow> le_pending (m_lr_state s c i) \<longrightarrow>
                   lr_prio_field val \<le> lr_prio_field (vifctrl_lr s c i)"
    and lower: "\<forall>i<idx. \<not> (le_virtual_id (m_lr_state s c i) = 10 \<and>
                   (le_active (m_lr_state s c i) \<or> le_pending (m_lr_state s c i)))"
  shows "fst (vcpuif_read_iar (write_lr s c val idx) c) = 10
    \<and> le_active (m_lr_state (snd (vcpuif_read_iar (write_lr s c val idx) c)) c idx)
    \<and> \<not> le_pending (m_lr_state (snd (vcpuif_read_iar (write_lr s c val idx) c)) c idx)
    \<and> m_irq_state (snd (vcpuif_read_iar (write_lr s c val idx) c)) = m_irq_state s
    \<and> \<not> le_active (m_lr_state
           (vcpuif_write_eoir (snd (vcpuif_read_iar (write_lr s c val idx) c)) c 10) c idx)
    \<and> \<not> is_irq_active
           (vcpuif_write_eoir (snd (vcpuif_read_iar (write_lr s c val idx) c)) c 10) 42 (cpu_bit c)
    \<and> active (m_irq_state
           (vcpuif_write_eoir (snd (vcpuif_read_iar (write_lr s c val idx) c)) c 10) 42) =
        active (m_irq_state s 42) AND NOT (ucast (cpu_bit c))"
proof -
  define e where "e = (m_lr_state s c idx)\<lparr>le_cpu_id := 0, le_hw := True,
      le_physical_id := 42, le_pending := True,
      le_prio := ucast (drop_bit 23 val AND 0x1f), le_virtual_id := 10\<rparr>"
  define t where "t =
     s\<lparr>m_lr_state := (m_lr_state s)(c := (m_lr_state s c)(idx := e)),
       vifctrl_lr := (vifctrl_lr s)(c := (vifctrl_lr s c)(idx := val))\<rparr>"
  define s1 where "s1 = write_lr s c val idx"
  define s2 where "s2 = snd (vcpuif_read_iar s1 c)"
  have s1: "s1 = update t True"
    unfolding s1_def t_def e_def using req by (rule write_lr_loaded)
  have vid: "val AND 0x1ff = 10" using req by (simp add: lr_hw_request_def)
  have tf: "m_cpu_num t = m_cpu_num s" "NLR t = NLR s" "vifctrl_hcr t = vifctrl_hcr s"
    "vcpuif_pmr t = vcpuif_pmr s" "vcpuif_rpr t = vcpuif_rpr s" "m_irq_num t = m_irq_num s"
    "vifctrl_lr t c idx = val" "m_lr_state t c idx = e"
    by (simp_all add: t_def)
  have to: "m_lr_state t c i = m_lr_state s c i" "vifctrl_lr t c i = vifctrl_lr s c i"
    if "i \<noteq> idx" for i
    using that by (simp_all add: t_def)
  have pend: "is_lr_pending t idx c" by (simp add: is_lr_pending_def tf e_def)
  have bef: "\<forall>i<idx. is_lr_pending t i c \<longrightarrow>
      lr_prio_field (vifctrl_lr t c idx) < lr_prio_field (vifctrl_lr t c i)"
    using before by (simp add: is_lr_pending_def tf to)
  have aft: "\<forall>i<NLR t. idx < i \<longrightarrow> is_lr_pending t i c \<longrightarrow>
      lr_prio_field (vifctrl_lr t c idx) \<le> lr_prio_field (vifctrl_lr t c i)"
    using after by (simp add: is_lr_pending_def tf to)
  have ct: "c < m_cpu_num t" "idx < NLR t" "vifctrl_hcr t c \<noteq> 0"
    "lr_prio_field (vifctrl_lr t c idx) < unat (vcpuif_pmr t c)"
    using c idx(1) hcr pmr by (simp_all add: tf)
  have "vcpuif_hppir (update t True) c = vifctrl_lr t c idx AND 0x1ff"
    using ct(1,2,3) pend bef aft ct(4) by (rule update_virt_winner)
  then have hp: "vcpuif_hppir s1 c = 10"
    by (simp add: s1 tf vid)
  have f1: "m_lr_state s1 = m_lr_state t" "NLR s1 = NLR s" "m_irq_num s1 = m_irq_num s"
    "vcpuif_rpr s1 = vcpuif_rpr s"
    by (simp_all add: s1 update_frame tf)
  have low: "\<not> lr_matches s c 10 i" if "i < idx" for i
    using lower that by (auto simp: lr_matches_def ucast_vid_eq)
  have m1: "lr_matches s1 c 10 idx"
    by (simp add: lr_matches_def f1 tf e_def)
  have l1: "\<forall>i<idx. \<not> lr_matches s1 c 10 i"
    using low by (simp add: lr_matches_def f1 to)
  have p1: "unat (le_prio (m_lr_state s1 c idx)) < unat (vcpuif_rpr s1 c)"
    using rpr by (simp add: f1 tf e_def unat_ucast_prio lr_prio_field_def)
  have c1: "le_cpu_id (m_lr_state s1 c idx) = 0" by (simp add: f1 tf e_def)
  have idx1: "idx < NLR s1" using idx(1) by (simp add: f1)
  note ack = vread_iar_first [OF hp idx1 idx(2) m1 l1 p1 c1, folded s2_def]
  have tab: "m_irq_state s2 = m_irq_state s"
    by (simp add: s2_def s1_def vread_iar_table write_lr_table)
  have e2: "m_lr_state s2 c idx = e\<lparr>le_active := True, le_pending := False\<rparr>"
    by (simp add: ack(2) f1 tf)
  have o2: "m_lr_state s2 c i = m_lr_state s c i" if "i \<noteq> idx" for i
    using that by (simp add: ack(2) f1 to)
  have m2: "lr_matches s2 c 10 idx" by (simp add: lr_matches_def e2 e_def)
  have l2: "\<forall>i<idx. \<not> lr_matches s2 c 10 i"
    using low by (simp add: lr_matches_def o2)
  have idx2: "idx < NLR s2" using idx(1) by (simp add: ack(3) f1)
  have n2: "10 < m_irq_num s2" using irqn by (simp add: ack(4) f1)
  have h2: "le_hw (m_lr_state s2 c idx)" "le_physical_id (m_lr_state s2 c idx) = 42"
    by (simp_all add: e2 e_def)
  note eoi = vwrite_eoir_first [OF n2 idx2 idx(2) m2 l2 h2, unfolded tab]
  have "le_active (m_lr_state s2 c idx)" "\<not> le_pending (m_lr_state s2 c idx)"
    by (simp_all add: e2)
  with ack(1) eoi tab show ?thesis unfolding s2_def s1_def by blast
qed

lemma lr_request_example: "lr_hw_request 0x9000A80A" "lr_hw_request 0x9100A80A"
  by (simp_all add: lr_hw_request_def)

theorem virtual_hw_irq_lifecycle_witness:
  "is_irq_active virt_busy 42 (cpu_bit 0)
   \<and> fst (vcpuif_read_iar (write_lr virt_busy 0 0x9100A80A 1) 0) = 10
   \<and> le_active (m_lr_state (snd (vcpuif_read_iar (write_lr virt_busy 0 0x9100A80A 1) 0)) 0 1)
   \<and> \<not> le_pending (m_lr_state (snd (vcpuif_read_iar (write_lr virt_busy 0 0x9100A80A 1) 0)) 0 1)
   \<and> is_irq_active (snd (vcpuif_read_iar (write_lr virt_busy 0 0x9100A80A 1) 0)) 42 (cpu_bit 0)
   \<and> \<not> le_active (m_lr_state
          (vcpuif_write_eoir (snd (vcpuif_read_iar (write_lr virt_busy 0 0x9100A80A 1) 0)) 0 10) 0 1)
   \<and> \<not> is_irq_active
          (vcpuif_write_eoir (snd (vcpuif_read_iar (write_lr virt_busy 0 0x9100A80A 1) 0)) 0 10)
          42 (cpu_bit 0)"
proof -
  have h: "0 < m_cpu_num virt_busy" "1 < NLR virt_busy" "(1::nat) < 256"
    "10 < m_irq_num virt_busy" "vifctrl_hcr virt_busy 0 \<noteq> 0"
    by (simp_all add: virt_busy_def gic_reset_def)
  have p: "lr_prio_field 0x9100A80A < unat (vcpuif_pmr virt_busy 0)"
    "lr_prio_field 0x9100A80A < unat (vcpuif_rpr virt_busy 0)"
    by (simp_all add: virt_busy_def gic_reset_def IDLE_PRIO_def lr_prio_field_def)
  have o: "\<forall>i<1. le_pending (m_lr_state virt_busy 0 i) \<longrightarrow>
             lr_prio_field 0x9100A80A < lr_prio_field (vifctrl_lr virt_busy 0 i)"
    "\<forall>i<NLR virt_busy. 1 < i \<longrightarrow> le_pending (m_lr_state virt_busy 0 i) \<longrightarrow>
             lr_prio_field 0x9100A80A \<le> lr_prio_field (vifctrl_lr virt_busy 0 i)"
    "\<forall>i<1. \<not> (le_virtual_id (m_lr_state virt_busy 0 i) = 10 \<and>
             (le_active (m_lr_state virt_busy 0 i) \<or> le_pending (m_lr_state virt_busy 0 i)))"
    by (simp_all add: virt_busy_def gic_reset_def list_entry_init_def lr_prio_field_def)
  have a0: "is_irq_active virt_busy 42 (cpu_bit 0)"
    by (simp add: virt_busy_def is_irq_active_def cpu_bit_def irq_state_init_def)
  note t = virtual_hw_irq_lifecycle [OF h lr_request_example(2) p o]
  from t have "m_irq_state (snd (vcpuif_read_iar (write_lr virt_busy 0 0x9100A80A 1) 0)) =
      m_irq_state virt_busy" by blast
  with a0 have "is_irq_active (snd (vcpuif_read_iar (write_lr virt_busy 0 0x9100A80A 1) 0)) 42
      (cpu_bit 0)"
    by (simp add: is_irq_active_def)
  with a0 t show ?thesis by blast
qed

text \<open>
  The claim as written fails: after reset the virtual interface is disabled (HCR = 0);
  the same write to the list register followed by the virtual IAR read returns
  \<^verbatim>\<open>SPURIOUS\<close> (1023), and the list register stays pending and not active.
\<close>

theorem virtual_irq_needs_enabled_interface:
  "fst (vcpuif_read_iar (write_lr (gic_reset 4 2 1 64) 0 0x9000A80A 0) 0) = 1023
   \<and> \<not> le_active (m_lr_state
          (snd (vcpuif_read_iar (write_lr (gic_reset 4 2 1 64) 0 0x9000A80A 0) 0)) 0 0)
   \<and> le_pending (m_lr_state
          (snd (vcpuif_read_iar (write_lr (gic_reset 4 2 1 64) 0 0x9000A80A 0) 0)) 0 0)"
proof -
  define s1 where "s1 = write_lr (gic_reset 4 2 1 64) 0 0x9000A80A 0"
  note w = write_lr_loaded [OF lr_request_example(1), of "gic_reset 4 2 1 64" 0 0, folded s1_def]
  have m: "m_lr_state s1 0 0 = list_entry_init\<lparr>le_cpu_id := 0, le_hw := True,
      le_physical_id := 42, le_pending := True,
      le_prio := ucast (drop_bit 23 (0x9000A80A::u32) AND 0x1f), le_virtual_id := 10\<rparr>"
    unfolding w by (simp add: update_frame gic_reset_def)
  have "vcpuif_hppir s1 0 = of_nat SPURIOUS_IRQ"
    unfolding w
    by (subst update_virt_bank) (simp_all add: update_cpu_virt gic_reset_def)
  then have r: "vcpuif_read_iar s1 0 = (of_nat SPURIOUS_IRQ, s1)"
    by (simp add: vcpuif_read_iar_def Let_def)
  show ?thesis
    unfolding s1_def [symmetric] r
    by (simp add: m SPURIOUS_IRQ_def list_entry_init_def)
qed

end
